theory Spec2Isabelle
  imports Complex_Main
begin

section \<open>Python values used by the notebooks\<close>

text \<open>
  An article of the dataset is a Python \<^verbatim>\<open>dict\<close> from field names to values; the fields
  read by the notebook hold a string or \<^verbatim>\<open>None\<close>.  A missing key is \<open>None\<close> of the
  map, a key bound to Python's \<^verbatim>\<open>None\<close> is \<open>Some PyNone\<close>.
\<close>

datatype pyval = PyNone | PyStr string

type_synonym article = "string \<rightharpoonup> pyval"

datatype py_error = ValueError

text \<open>\<^verbatim>\<open>a.get(k)\<close>: the value under \<open>k\<close>, or \<^verbatim>\<open>None\<close> when the key is missing.\<close>

definition dict_get :: "article \<Rightarrow> string \<Rightarrow> pyval" where
  "dict_get a k = (case a k of None \<Rightarrow> PyNone | Some v \<Rightarrow> v)"

text \<open>Python truthiness: \<^verbatim>\<open>None\<close> and the empty string are false.\<close>

fun truthy :: "pyval \<Rightarrow> bool" where
  "truthy PyNone = False"
| "truthy (PyStr s) = (s \<noteq> [])"

text \<open>
  \<^verbatim>\<open>a[text_key]\<close> guarded by \<^verbatim>\<open>if a.get(text_key)\<close>: the string under the key when
  that value is truthy.  The guard makes the subscript safe, so no \<^verbatim>\<open>KeyError\<close>
  branch exists.
\<close>

definition truthy_text :: "article \<Rightarrow> string \<Rightarrow> string option" where
  "truthy_text a k =
     (case dict_get a k of PyNone \<Rightarrow> None | PyStr s \<Rightarrow> if truthy (PyStr s) then Some s else None)"

text \<open>
  \<^verbatim>\<open>article['text']\<close> guarded by \<^verbatim>\<open>if article.get('text') is not None\<close>: empty
  strings pass this guard.
\<close>

definition not_none_text :: "article \<Rightarrow> string \<Rightarrow> string option" where
  "not_none_text a k = (case dict_get a k of PyNone \<Rightarrow> None | PyStr s \<Rightarrow> Some s)"

text \<open>\<^verbatim>\<open>xs[:m]\<close>: a negative bound counts from the end and never goes below zero.\<close>

definition py_slice_to :: "'a list \<Rightarrow> int \<Rightarrow> 'a list" where
  "py_slice_to xs m = (if 0 \<le> m then take (nat m) xs else take (nat (int (length xs) + m)) xs)"

text \<open>\<^verbatim>\<open>range(0, n, step)\<close> as a list; a zero step raises \<^verbatim>\<open>ValueError\<close>.\<close>

definition py_range0 :: "nat \<Rightarrow> int \<Rightarrow> py_error + nat list" where
  "py_range0 n step =
     (if step = 0 then Inl ValueError
      else if step < 0 then Inr []
      else Inr (map (\<lambda>k. k * nat step) [0 ..< (n + nat step - 1) div nat step]))"

text \<open>
  A string is a list of characters, and a character here is a code point below 256; the
  length of a string counts code points, as \<^verbatim>\<open>len\<close> does.  \<^verbatim>\<open>str.strip()\<close> removes the
  characters for which \<^verbatim>\<open>str.isspace\<close> holds from both ends: among the code points
  below 256 these are 9 to 13, 28 to 32, 133 (U+0085) and 160 (U+00A0).
\<close>

definition is_space :: "char \<Rightarrow> bool" where
  "is_space c =
     (let n = (of_char c :: nat)
      in (9 \<le> n \<and> n \<le> 13) \<or> (28 \<le> n \<and> n \<le> 32) \<or> n = 133 \<or> n = 160)"

definition strip :: "string \<Rightarrow> string" where
  "strip s = rev (dropWhile is_space (rev (dropWhile is_space s)))"

text \<open>
  \<^verbatim>\<open>str.lower()\<close>: among the code points below 256 the upper-case letters are A to Z and
  U+00C0 to U+00DE without the multiplication sign U+00D7; each has its lower-case letter
  32 places further on, and every other character stays as it is.
\<close>

definition upper_chars :: string where
  "upper_chars = ''ABCDEFGHIJKLMNOPQRSTUVWXYZ'' @
     [CHR 0xC0, CHR 0xC1, CHR 0xC2, CHR 0xC3, CHR 0xC4, CHR 0xC5, CHR 0xC6, CHR 0xC7,
      CHR 0xC8, CHR 0xC9, CHR 0xCA, CHR 0xCB, CHR 0xCC, CHR 0xCD, CHR 0xCE, CHR 0xCF,
      CHR 0xD0, CHR 0xD1, CHR 0xD2, CHR 0xD3, CHR 0xD4, CHR 0xD5, CHR 0xD6,
      CHR 0xD8, CHR 0xD9, CHR 0xDA, CHR 0xDB, CHR 0xDC, CHR 0xDD, CHR 0xDE]"

definition lower_chars :: string where
  "lower_chars = ''abcdefghijklmnopqrstuvwxyz'' @
     [CHR 0xE0, CHR 0xE1, CHR 0xE2, CHR 0xE3, CHR 0xE4, CHR 0xE5, CHR 0xE6, CHR 0xE7,
      CHR 0xE8, CHR 0xE9, CHR 0xEA, CHR 0xEB, CHR 0xEC, CHR 0xED, CHR 0xEE, CHR 0xEF,
      CHR 0xF0, CHR 0xF1, CHR 0xF2, CHR 0xF3, CHR 0xF4, CHR 0xF5, CHR 0xF6,
      CHR 0xF8, CHR 0xF9, CHR 0xFA, CHR 0xFB, CHR 0xFC, CHR 0xFD, CHR 0xFE]"

definition char_lower :: "char \<Rightarrow> char" where
  "char_lower c = (case map_of (zip upper_chars lower_chars) c of None \<Rightarrow> c | Some l \<Rightarrow> l)"

definition lower :: "string \<Rightarrow> string" where
  "lower s = map char_lower s"

text \<open>The format \<^verbatim>\<open>{s: <20}\<close>: left-aligned, padded with spaces to width 20.\<close>

definition pad20 :: "string \<Rightarrow> string" where
  "pad20 s = s @ replicate (20 - length s) (CHR '' '')"

section \<open>Selecting the texts of build_person_sentiment_df\<close>

text \<open>
  The spaCy version: two comprehensions over the articles, then both lists are sliced
  when \<^verbatim>\<open>max_records is not None\<close>.
\<close>

definition select_texts_spacy :: "article list \<Rightarrow> string \<Rightarrow> int option \<Rightarrow> string list \<times> nat list" where
  "select_texts_spacy articles text_key max_records =
     (let texts = List.map_filter (\<lambda>a. truthy_text a text_key) articles;
          article_ids = map fst (filter (\<lambda>(i, a). truthy (dict_get a text_key)) (enumerate 0 articles))
      in case max_records of
           None \<Rightarrow> (texts, article_ids)
         | Some m \<Rightarrow> (py_slice_to texts m, py_slice_to article_ids m))"

text \<open>
  The Hugging Face version: one loop that appends to both lists and breaks when
  \<^verbatim>\<open>max_records and len(texts) >= max_records\<close>; a \<^verbatim>\<open>max_records\<close> of \<^verbatim>\<open>None\<close> or
  \<open>0\<close> is falsy, so the loop never breaks.
\<close>

definition break_now :: "int option \<Rightarrow> nat \<Rightarrow> bool" where
  "break_now max_records n = (case max_records of None \<Rightarrow> False | Some m \<Rightarrow> m \<noteq> 0 \<and> m \<le> int n)"

fun collect_loop ::
  "string \<Rightarrow> int option \<Rightarrow> (nat \<times> article) list \<Rightarrow> string list \<times> nat list \<Rightarrow> string list \<times> nat list"
where
  "collect_loop text_key max_records [] (texts, art_ids) = (texts, art_ids)"
| "collect_loop text_key max_records ((i, art) # rest) (texts, art_ids) =
     (case truthy_text art text_key of
        None \<Rightarrow> collect_loop text_key max_records rest (texts, art_ids)
      | Some t \<Rightarrow>
          (if break_now max_records (length (texts @ [t])) then (texts @ [t], art_ids @ [i])
           else collect_loop text_key max_records rest (texts @ [t], art_ids @ [i])))"

definition select_texts_hf :: "article list \<Rightarrow> string \<Rightarrow> int option \<Rightarrow> string list \<times> nat list" where
  "select_texts_hf articles text_key max_records =
     collect_loop text_key max_records (enumerate 0 articles) ([], [])"

section \<open>The pre-trained models, as parameters\<close>

text \<open>
  spaCy, the tokenizer and the two Transformers pipelines are external: the notebook only
  calls them.  They are parameters of the model, and every function returns, next to its
  result, the list of library calls it made, in order, with the arguments it passed.
\<close>

record token =
  tok_text :: string
  tok_lemma :: string
  is_stop :: bool
  is_punct :: bool

record span =
  span_text :: string
  span_label :: string

record doc =
  doc_tokens :: "token list"
  doc_ents :: "span list"
  blob_polarity :: real

record entity =
  ent_word :: string
  entity_group :: string

record prediction =
  pred_label :: string
  pred_score :: real

text \<open>
  \<open>nlp\<close> is \<^verbatim>\<open>nlp(sentence)\<close>; \<open>nlp_pipe\<close> is \<^verbatim>\<open>nlp.pipe(texts, batch_size=, disable=)\<close>;
  \<open>ner_pipeline\<close> is \<^verbatim>\<open>ner_pipeline(batch, batch_size=, stride=)\<close>; \<open>tokenizer_windows\<close> is
  the tokenizer call with \<^verbatim>\<open>max_length\<close> and \<^verbatim>\<open>stride\<close> followed by
  \<^verbatim>\<open>batch_decode\<close>, giving the decoded windows of a text; \<open>sentiment_pipeline\<close> is
  \<^verbatim>\<open>sentiment_pipeline(chunks, batch_size=)\<close>.
\<close>

record library =
  nlp :: "string \<Rightarrow> doc"
  nlp_pipe :: "string list \<Rightarrow> int \<Rightarrow> string list \<Rightarrow> doc list"
  ner_pipeline :: "string list \<Rightarrow> int \<Rightarrow> int \<Rightarrow> entity list list"
  tokenizer_windows :: "string \<Rightarrow> int \<Rightarrow> int \<Rightarrow> string list"
  sentiment_pipeline :: "string list \<Rightarrow> int \<Rightarrow> prediction list"

datatype lib_call =
    NlpCall string
  | NlpPipe "string list" int "string list"
  | NerPipeline "string list" int int
  | TokenizerWindows string int int
  | SentimentPipeline "string list" int

type_synonym 'a traced = "'a \<times> lib_call list"

text \<open>
  A NumPy float: a finite value, an infinity or NaN.  The finite values are real numbers
  and the operations on them are exact, so the rounding of float64 arithmetic is not part
  of the model; what is stated over these values is the expression the code evaluates and
  bounds that rounding to the nearest float keeps, never an identity that needs exact sums.
\<close>

datatype npfloat = Finite real | PosInf | NegInf | NaN

text \<open>\<^verbatim>\<open>np.mean\<close> of a list of finite floats: NaN on the empty list.\<close>

definition np_mean :: "real list \<Rightarrow> npfloat" where
  "np_mean xs = (if xs = [] then NaN else Finite (sum_list xs / real (length xs)))"

section \<open>The spaCy functions\<close>

definition lemmatize_sentence :: "library \<Rightarrow> string \<Rightarrow> string list traced" where
  "lemmatize_sentence L sentence =
     (let d = nlp L sentence
      in ((pad20 ''Token'' @ pad20 ''Lemma'')
            # map (\<lambda>t. pad20 (tok_text t) @ pad20 (tok_lemma t)) (doc_tokens d),
          [NlpCall sentence]))"

text \<open>
  \<^verbatim>\<open>token_counter[token.lemma_] += 1\<close> on a \<^verbatim>\<open>Counter\<close>, for a token that is no stop
  word, no punctuation and has a lemma that is not blank.
\<close>

definition count_token :: "(string \<rightharpoonup> nat) \<Rightarrow> token \<Rightarrow> (string \<rightharpoonup> nat)" where
  "count_token token_counter t =
     (if \<not> is_stop t \<and> \<not> is_punct t \<and> 0 < length (strip (tok_lemma t))
      then token_counter(tok_lemma t \<mapsto>
             (case token_counter (tok_lemma t) of None \<Rightarrow> 1 | Some c \<Rightarrow> c + 1))
      else token_counter)"

definition count_tokens_pipe :: "library \<Rightarrow> article list \<Rightarrow> int \<Rightarrow> (string \<rightharpoonup> nat) traced" where
  "count_tokens_pipe L articles batch_size =
     (let texts = List.map_filter (\<lambda>a. not_none_text a ''text'') articles;
          docs = nlp_pipe L texts batch_size [''ner'', ''parser'']
      in (fold (\<lambda>d token_counter. fold (\<lambda>t c. count_token c t) (doc_tokens d) token_counter)
            docs Map.empty,
          [NlpPipe texts batch_size [''ner'', ''parser'']]))"

definition person_names :: "doc \<Rightarrow> string list" where
  "person_names d = map span_text (filter (\<lambda>e. span_label e = ''PERSON'') (doc_ents d))"

definition extract_people_spacy :: "library \<Rightarrow> string list \<Rightarrow> int \<Rightarrow> string list list traced" where
  "extract_people_spacy L texts batch_size =
     (let disable = [''parser'', ''tagger'', ''attribute_ruler'', ''lemmatizer'', ''spacytextblob''];
          docs = nlp_pipe L texts batch_size disable
      in (map person_names docs, [NlpPipe texts batch_size disable]))"

definition score_sentiment :: "library \<Rightarrow> string list \<Rightarrow> int \<Rightarrow> real list traced" where
  "score_sentiment L texts batch_size =
     (let disable = [''parser'', ''tagger'', ''attribute_ruler'', ''lemmatizer'', ''ner''];
          docs = nlp_pipe L texts batch_size disable
      in (map blob_polarity docs, [NlpPipe texts batch_size disable]))"

text \<open>
  The long form of the table: one record \<open>(article_id, person, score)\<close> per name, from
  \<^verbatim>\<open>zip(article_ids, people_lists, polarity_list)\<close>, which stops at the shortest list.
\<close>

definition explode :: "nat list \<Rightarrow> string list list \<Rightarrow> 's list \<Rightarrow> (nat \<times> string \<times> 's) list" where
  "explode article_ids people_lists score_list =
     concat (map (\<lambda>(art_id, names, pol). map (\<lambda>name. (art_id, name, pol)) names)
                 (zip article_ids (zip people_lists score_list)))"

definition build_person_sentiment_df_spacy ::
  "library \<Rightarrow> article list \<Rightarrow> string \<Rightarrow> int option \<Rightarrow> (nat \<times> string \<times> real) list traced"
where
  "build_person_sentiment_df_spacy L articles text_key max_records =
     (let (texts, article_ids) = select_texts_spacy articles text_key max_records;
          (people_lists, calls1) = extract_people_spacy L texts 64;
          (polarity_list, calls2) = score_sentiment L texts 64
      in (explode article_ids people_lists polarity_list, calls1 @ calls2))"

section \<open>The Hugging Face functions\<close>

text \<open>The argument \<^verbatim>\<open>texts\<close> is a single string or a list of strings.\<close>

datatype texts_arg = OneStr string | StrList "string list"

fun as_list :: "texts_arg \<Rightarrow> string list" where
  "as_list (OneStr s) = [s]"
| "as_list (StrList ts) = ts"

definition per_names :: "entity list \<Rightarrow> string list" where
  "per_names ents =
     map (\<lambda>e. strip (ent_word e))
         (filter (\<lambda>e. entity_group e = ''PER'' \<and> 5 < length (strip (ent_word e))) ents)"

text \<open>
  The loop over \<^verbatim>\<open>range(0, len(texts), batch_size)\<close>: each round slices
  \<^verbatim>\<open>texts[start : start + batch_size]\<close> and calls the pipeline on the slice with
  \<^verbatim>\<open>batch_size=len(batch)\<close>.  The loop body runs only for a positive \<^verbatim>\<open>batch_size\<close>.
\<close>

fun ner_loop ::
  "library \<Rightarrow> string list \<Rightarrow> int \<Rightarrow> int \<Rightarrow> nat list \<Rightarrow> string list list traced \<Rightarrow> string list list traced"
where
  "ner_loop L texts batch_size stride [] (persons_per_doc, calls) = (persons_per_doc, calls)"
| "ner_loop L texts batch_size stride (start # starts) (persons_per_doc, calls) =
     (let batch = take (nat batch_size) (drop start texts);
          batch_entities = ner_pipeline L batch (int (length batch)) stride
      in ner_loop L texts batch_size stride starts
           (persons_per_doc @ map per_names batch_entities,
            calls @ [NerPipeline batch (int (length batch)) stride]))"

definition extract_people_hf ::
  "library \<Rightarrow> texts_arg \<Rightarrow> int \<Rightarrow> int \<Rightarrow> py_error + string list list traced"
where
  "extract_people_hf L texts batch_size stride =
     (case py_range0 (length (as_list texts)) batch_size of
        Inl e \<Rightarrow> Inl e
      | Inr starts \<Rightarrow> Inr (ner_loop L (as_list texts) batch_size stride starts ([], [])))"

definition signed_score :: "prediction \<Rightarrow> real" where
  "signed_score p =
     pred_score p * (if lower (pred_label p) = ''positive'' then 1
                     else if lower (pred_label p) = ''negative'' then - 1
                     else 0)"

definition score_long_text :: "library \<Rightarrow> string \<Rightarrow> int \<Rightarrow> int \<Rightarrow> int \<Rightarrow> npfloat traced" where
  "score_long_text L text max_len stride batch_size =
     (let chunks = tokenizer_windows L text max_len stride;
          chunk_preds = sentiment_pipeline L chunks batch_size;
          signed = map signed_score chunk_preds
      in (np_mean signed,
          [TokenizerWindows text max_len stride, SentimentPipeline chunks batch_size]))"

definition extract_sentiment ::
  "library \<Rightarrow> texts_arg \<Rightarrow> int \<Rightarrow> int \<Rightarrow> int \<Rightarrow> npfloat list traced"
where
  "extract_sentiment L texts batch_size max_len stride =
     (let scored = map (\<lambda>t. score_long_text L t max_len stride batch_size) (as_list texts)
      in (map fst scored, concat (map snd scored)))"

definition build_person_sentiment_df_hf ::
  "library \<Rightarrow> article list \<Rightarrow> string \<Rightarrow> int option \<Rightarrow> py_error + (nat \<times> string \<times> npfloat) list traced"
where
  "build_person_sentiment_df_hf L articles text_key max_records =
     (let (texts, art_ids) = select_texts_hf articles text_key max_records
      in case extract_people_hf L (StrList texts) 16 128 of
           Inl e \<Rightarrow> Inl e
         | Inr (people_per_article, calls1) \<Rightarrow>
             (let (sentiment_per_article, calls2) = extract_sentiment L (StrList texts) 16 512 128
              in Inr (explode art_ids people_per_article sentiment_per_article, calls1 @ calls2)))"

section \<open>Apportioning ward counts to postal FSAs\<close>

text \<open>
  Division and multiplication on the float columns.  A division by zero is no error in
  NumPy: it gives an infinity, or NaN for \<open>0 / 0\<close>; NaN is also what a left merge puts
  where no row matches.
\<close>

fun np_div :: "real \<Rightarrow> npfloat \<Rightarrow> npfloat" where
  "np_div x (Finite y) =
     (if y \<noteq> 0 then Finite (x / y)
      else if x = 0 then NaN else if 0 < x then PosInf else NegInf)"
| "np_div x PosInf = Finite 0"
| "np_div x NegInf = Finite 0"
| "np_div x NaN = NaN"

fun np_mul :: "real \<Rightarrow> npfloat \<Rightarrow> npfloat" where
  "np_mul c (Finite f) = Finite (c * f)"
| "np_mul c PosInf = (if c = 0 then NaN else if 0 < c then PosInf else NegInf)"
| "np_mul c NegInf = (if c = 0 then NaN else if 0 < c then NegInf else PosInf)"
| "np_mul c NaN = NaN"

text \<open>
  A row of \<^verbatim>\<open>gdf_combined\<close>: the ward number, the area of the ward's polygon (what
  \<^verbatim>\<open>geometry.area\<close> gives for the row) and the value of each numeric column.  The
  frame is its list of column names and its rows.
\<close>

record ward_row =
  ward_number :: int
  ward_geom_area :: real
  ward_cells :: "string \<Rightarrow> real"

record geoframe =
  gdf_columns :: "string list"
  gdf_rows :: "ward_row list"

text \<open>
  A row of \<^verbatim>\<open>gpd.overlay(gdf_combined, fsa_boundaries, how="intersection")\<close>: the
  attributes copied from a ward row, the FSA code copied from an FSA row, and the area of
  the intersection polygon (\<^verbatim>\<open>area_overlap\<close>).  The overlay itself is GeoPandas' work and
  is an input here.
\<close>

record overlay_row =
  ov_ward_number :: int
  ov_cells :: "string \<Rightarrow> real"
  ov_cfsauid :: string
  area_overlap :: real

text \<open>\<^verbatim>\<open>gdf_combined.assign(ward_area=...).loc[:, ["Ward Number", "ward_area"]]\<close>\<close>

definition ward_area :: "geoframe \<Rightarrow> (int \<times> real) list" where
  "ward_area gdf_combined = map (\<lambda>w. (ward_number w, ward_geom_area w)) (gdf_rows gdf_combined)"

text \<open>
  \<^verbatim>\<open>ward_fsa.merge(ward_area, on="Ward Number", how="left")\<close>: every left row, in order,
  once per matching right row; with NaN for \<^verbatim>\<open>ward_area\<close> when none matches.
\<close>

definition merge_left :: "overlay_row list \<Rightarrow> (int \<times> real) list \<Rightarrow> (overlay_row \<times> npfloat) list" where
  "merge_left ward_fsa tbl =
     concat (map (\<lambda>r. case filter (\<lambda>(n, a). n = ov_ward_number r) tbl of
                         [] \<Rightarrow> [(r, NaN)]
                       | m # ms \<Rightarrow> map (\<lambda>(n, a). (r, Finite a)) (m # ms))
                 ward_fsa)"

definition area_frac :: "overlay_row \<times> npfloat \<Rightarrow> npfloat" where
  "area_frac row = np_div (area_overlap (fst row)) (snd row)"

definition starts_with :: "string \<Rightarrow> string \<Rightarrow> bool" where
  "starts_with c p = (take (length p) c = p)"

definition numeric_cols :: "geoframe \<Rightarrow> string list" where
  "numeric_cols gdf_combined =
     filter (\<lambda>c. starts_with c ''311_'' \<or> starts_with c ''STR_'') (gdf_columns gdf_combined)"

text \<open>
  \<^verbatim>\<open>ward_fsa[numeric_cols].mul(ward_fsa["area_frac"], axis=0)\<close>, concatenated with the
  \<^verbatim>\<open>CFSAUID\<close> column: per row, the FSA code and one value per numeric column, in the
  order of \<open>numeric_cols\<close>.
\<close>

definition apportioned_row :: "string list \<Rightarrow> overlay_row \<times> npfloat \<Rightarrow> string \<times> npfloat list" where
  "apportioned_row cols row =
     (ov_cfsauid (fst row), map (\<lambda>c. np_mul (ov_cells (fst row) c) (area_frac row)) cols)"

definition apportion :: "geoframe \<Rightarrow> overlay_row list \<Rightarrow> (string \<times> npfloat list) list" where
  "apportion gdf_combined ward_fsa =
     map (apportioned_row (numeric_cols gdf_combined)) (merge_left ward_fsa (ward_area gdf_combined))"

section \<open>The functions on an explicit store\<close>

text \<open>
  Python lists and dicts are objects that can be changed in place, so whether a function
  leaves its arguments alone is a question about a store.  Here the store is the list of
  all objects, an address is an index into it, and creating an object puts it at the end.
  A value is \<^verbatim>\<open>None\<close>, a string, an integer, a float, or a reference to an object.  The
  functions above are written once more with every \<^verbatim>\<open>[]\<close>, comprehension, slice,
  \<^verbatim>\<open>Counter()\<close> and record dict as a new object and every \<^verbatim>\<open>append\<close> and
  \<^verbatim>\<open>counter[k] += 1\<close> as a write at the address the local variable holds.  A
  \<^verbatim>\<open>for\<close> loop runs over the items its list holds when the loop starts.  The library
  calls read their arguments and return values of their own.
\<close>

datatype pv = VNone | VStr string | VInt int | VFloat npfloat | VRef nat

datatype pyobj = ListObj "pv list" | DictObj "(string \<times> pv) list"

type_synonym store = "pyobj list"

definition new_obj :: "store \<Rightarrow> pyobj \<Rightarrow> nat \<times> store" where
  "new_obj h ob = (length h, h @ [ob])"

definition list_items :: "store \<Rightarrow> nat \<Rightarrow> pv list" where
  "list_items h a = (if a < length h then (case h ! a of ListObj xs \<Rightarrow> xs | DictObj kvs \<Rightarrow> []) else [])"

definition dict_items :: "store \<Rightarrow> nat \<Rightarrow> (string \<times> pv) list" where
  "dict_items h a = (if a < length h then (case h ! a of DictObj kvs \<Rightarrow> kvs | ListObj xs \<Rightarrow> []) else [])"

text \<open>\<^verbatim>\<open>xs.append(v)\<close> for the list at address \<open>a\<close>.\<close>

definition list_append :: "store \<Rightarrow> nat \<Rightarrow> pv \<Rightarrow> store" where
  "list_append h a v =
     (if a < length h then (case h ! a of ListObj xs \<Rightarrow> h[a := ListObj (xs @ [v])] | DictObj kvs \<Rightarrow> h)
      else h)"

fun alist_upd :: "string \<Rightarrow> pv \<Rightarrow> (string \<times> pv) list \<Rightarrow> (string \<times> pv) list" where
  "alist_upd k v [] = [(k, v)]"
| "alist_upd k v ((k', v') # kvs) = (if k' = k then (k, v) # kvs else (k', v') # alist_upd k v kvs)"

text \<open>\<^verbatim>\<open>counter[key] += 1\<close> for the \<^verbatim>\<open>Counter\<close> at address \<open>c\<close>: a missing key counts as 0.\<close>

definition counter_incr :: "store \<Rightarrow> nat \<Rightarrow> string \<Rightarrow> store" where
  "counter_incr h c key =
     (if c < length h
      then (case h ! c of
              DictObj kvs \<Rightarrow>
                h[c := DictObj (alist_upd key
                         (VInt ((case map_of kvs key of Some (VInt n) \<Rightarrow> n | _ \<Rightarrow> 0) + 1)) kvs)]
            | ListObj xs \<Rightarrow> h)
      else h)"

text \<open>
  \<^verbatim>\<open>art.get(key)\<close> for an article given as a reference to a dict; \<^verbatim>\<open>art[key]\<close> is the
  same value wherever the notebook subscripts, since a test of \<^verbatim>\<open>art.get(key)\<close> guards it.
\<close>

definition st_get :: "store \<Rightarrow> pv \<Rightarrow> string \<Rightarrow> pv" where
  "st_get h art key =
     (case art of
        VRef d \<Rightarrow> (case map_of (dict_items h d) key of None \<Rightarrow> VNone | Some v \<Rightarrow> v)
      | _ \<Rightarrow> VNone)"

fun pv_truthy :: "store \<Rightarrow> pv \<Rightarrow> bool" where
  "pv_truthy h VNone = False"
| "pv_truthy h (VStr s) = (s \<noteq> [])"
| "pv_truthy h (VInt i) = (i \<noteq> 0)"
| "pv_truthy h (VFloat x) = (x \<noteq> Finite 0)"
| "pv_truthy h (VRef a) = (list_items h a \<noteq> [] \<or> dict_items h a \<noteq> [])"

fun str_of :: "pv \<Rightarrow> string" where
  "str_of (VStr s) = s"
| "str_of v = []"

fun float_of :: "pv \<Rightarrow> real" where
  "float_of (VFloat (Finite x)) = x"
| "float_of v = 0"

text \<open>The items of the list a value refers to.\<close>

fun ref_items :: "store \<Rightarrow> pv \<Rightarrow> pv list" where
  "ref_items h (VRef a) = list_items h a"
| "ref_items h v = []"

definition count_tokens_pipe_st :: "library \<Rightarrow> store \<Rightarrow> nat \<Rightarrow> int \<Rightarrow> nat \<times> store" where
  "count_tokens_pipe_st L h articles batch_size =
     (let (token_counter, h1) = new_obj h (DictObj []);
          (texts, h2) = new_obj h1
             (ListObj (map (\<lambda>article. st_get h1 article ''text'')
                           (filter (\<lambda>article. st_get h1 article ''text'' \<noteq> VNone) (list_items h1 articles))));
          docs = nlp_pipe L (map str_of (list_items h2 texts)) batch_size [''ner'', ''parser''];
          h3 = fold (\<lambda>d h. fold (\<lambda>t h. if \<not> is_stop t \<and> \<not> is_punct t \<and> 0 < length (strip (tok_lemma t))
                                          then counter_incr h token_counter (tok_lemma t) else h)
                                   (doc_tokens d) h)
                    docs h2
      in (token_counter, h3))"

definition extract_people_spacy_st :: "library \<Rightarrow> store \<Rightarrow> nat \<Rightarrow> int \<Rightarrow> nat \<times> store" where
  "extract_people_spacy_st L h texts batch_size =
     (let (people_per_doc, h1) = new_obj h (ListObj []);
          docs = nlp_pipe L (map str_of (list_items h1 texts)) batch_size
                   [''parser'', ''tagger'', ''attribute_ruler'', ''lemmatizer'', ''spacytextblob''];
          h2 = fold (\<lambda>d h. let (names, h') = new_obj h (ListObj (map VStr (person_names d)))
                            in list_append h' people_per_doc (VRef names))
                    docs h1
      in (people_per_doc, h2))"

definition score_sentiment_st :: "library \<Rightarrow> store \<Rightarrow> nat \<Rightarrow> int \<Rightarrow> nat \<times> store" where
  "score_sentiment_st L h texts batch_size =
     (let (polarities, h1) = new_obj h (ListObj []);
          docs = nlp_pipe L (map str_of (list_items h1 texts)) batch_size
                   [''parser'', ''tagger'', ''attribute_ruler'', ''lemmatizer'', ''ner''];
          h2 = fold (\<lambda>d h. list_append h polarities (VFloat (Finite (blob_polarity d)))) docs h1
      in (polarities, h2))"

text \<open>
  The nested loops over \<^verbatim>\<open>zip(article_ids, people_lists, scores)\<close> and the names of an
  article: each round makes a record dict and appends it to \<^verbatim>\<open>records\<close>.
\<close>

definition explode_st :: "string \<Rightarrow> nat \<Rightarrow> nat \<Rightarrow> nat \<Rightarrow> nat \<Rightarrow> store \<Rightarrow> store" where
  "explode_st score_column records article_ids people_lists score_list h =
     fold (\<lambda>(art_id, names, pol) h.
             fold (\<lambda>name h. let (r, h') = new_obj h
                                   (DictObj [(''article_id'', art_id), (''person'', name), (score_column, pol)])
                             in list_append h' records (VRef r))
                  (ref_items h names) h)
          (zip (list_items h article_ids) (zip (list_items h people_lists) (list_items h score_list)))
          h"

definition build_person_sentiment_df_spacy_st ::
  "library \<Rightarrow> store \<Rightarrow> nat \<Rightarrow> string \<Rightarrow> int option \<Rightarrow> nat \<times> store"
where
  "build_person_sentiment_df_spacy_st L h articles text_key max_records =
     (let (texts, h1) = new_obj h
             (ListObj (map (\<lambda>a. st_get h a text_key)
                           (filter (\<lambda>a. pv_truthy h (st_get h a text_key)) (list_items h articles))));
          (article_ids, h2) = new_obj h1
             (ListObj (map (\<lambda>(i, a). VInt (int i))
                           (filter (\<lambda>(i, a). pv_truthy h1 (st_get h1 a text_key))
                                   (enumerate 0 (list_items h1 articles)))));
          (texts, article_ids, h4) =
             (case max_records of
                None \<Rightarrow> (texts, article_ids, h2)
              | Some m \<Rightarrow>
                  (let (texts', h3) = new_obj h2 (ListObj (py_slice_to (list_items h2 texts) m));
                       (article_ids', h4) = new_obj h3 (ListObj (py_slice_to (list_items h3 article_ids) m))
                   in (texts', article_ids', h4)));
          (people_lists, h5) = extract_people_spacy_st L h4 texts 64;
          (polarity_list, h6) = score_sentiment_st L h5 texts 64;
          (records, h7) = new_obj h6 (ListObj [])
      in (records, explode_st ''polarity'' records article_ids people_lists polarity_list h7))"

datatype texts_in = StrIn string | ListIn nat

text \<open>\<^verbatim>\<open>if isinstance(texts, str): texts = [texts]\<close>: a new one-element list, bound locally.\<close>

definition as_list_st :: "store \<Rightarrow> texts_in \<Rightarrow> nat \<times> store" where
  "as_list_st h texts = (case texts of StrIn s \<Rightarrow> new_obj h (ListObj [VStr s]) | ListIn a \<Rightarrow> (a, h))"

definition ner_step :: "library \<Rightarrow> nat \<Rightarrow> int \<Rightarrow> int \<Rightarrow> nat \<Rightarrow> nat \<Rightarrow> store \<Rightarrow> store" where
  "ner_step L texts batch_size stride persons_per_doc start h =
     (let (batch, h1) = new_obj h (ListObj (take (nat batch_size) (drop start (list_items h texts))));
          batch_entities = ner_pipeline L (map str_of (list_items h1 batch))
                             (int (length (list_items h1 batch))) stride
      in fold (\<lambda>d h. let (names, h') = new_obj h (ListObj (map VStr (per_names d)))
                      in list_append h' persons_per_doc (VRef names))
              batch_entities h1)"

definition extract_people_hf_st ::
  "library \<Rightarrow> store \<Rightarrow> texts_in \<Rightarrow> int \<Rightarrow> int \<Rightarrow> (py_error + nat) \<times> store"
where
  "extract_people_hf_st L h texts batch_size stride =
     (let (texts, h1) = as_list_st h texts;
          (persons_per_doc, h2) = new_obj h1 (ListObj [])
      in case py_range0 (length (list_items h2 texts)) batch_size of
           Inl e \<Rightarrow> (Inl e, h2)
         | Inr starts \<Rightarrow>
             (Inr persons_per_doc, fold (ner_step L texts batch_size stride persons_per_doc) starts h2))"

definition score_long_text_st ::
  "library \<Rightarrow> store \<Rightarrow> string \<Rightarrow> int \<Rightarrow> int \<Rightarrow> int \<Rightarrow> npfloat \<times> store"
where
  "score_long_text_st L h text max_len stride batch_size =
     (let chunks = tokenizer_windows L text max_len stride;
          chunk_preds = sentiment_pipeline L chunks batch_size;
          (signed, h1) = new_obj h (ListObj (map (\<lambda>p. VFloat (Finite (signed_score p))) chunk_preds))
      in (np_mean (map float_of (list_items h1 signed)), h1))"

definition extract_sentiment_st ::
  "library \<Rightarrow> store \<Rightarrow> texts_in \<Rightarrow> int \<Rightarrow> int \<Rightarrow> int \<Rightarrow> nat \<times> store"
where
  "extract_sentiment_st L h texts batch_size max_len stride =
     (let (texts, h1) = as_list_st h texts;
          (scores, h2) = new_obj h1 (ListObj [])
      in (scores,
          fold (\<lambda>t h. let (avg, h') = score_long_text_st L h (str_of t) max_len stride batch_size
                       in list_append h' scores (VFloat avg))
               (list_items h2 texts) h2))"

fun collect_loop_st ::
  "string \<Rightarrow> int option \<Rightarrow> nat \<Rightarrow> nat \<Rightarrow> (nat \<times> pv) list \<Rightarrow> store \<Rightarrow> store"
where
  "collect_loop_st text_key max_records texts art_ids [] h = h"
| "collect_loop_st text_key max_records texts art_ids ((i, art) # rest) h =
     (if pv_truthy h (st_get h art text_key)
      then (let h1 = list_append h texts (st_get h art text_key);
                h2 = list_append h1 art_ids (VInt (int i))
            in if break_now max_records (length (list_items h2 texts)) then h2
               else collect_loop_st text_key max_records texts art_ids rest h2)
      else collect_loop_st text_key max_records texts art_ids rest h)"

definition build_person_sentiment_df_hf_st ::
  "library \<Rightarrow> store \<Rightarrow> nat \<Rightarrow> string \<Rightarrow> int option \<Rightarrow> (py_error + nat) \<times> store"
where
  "build_person_sentiment_df_hf_st L h articles text_key max_records =
     (let (texts, h1) = new_obj h (ListObj []);
          (art_ids, h2) = new_obj h1 (ListObj []);
          h3 = collect_loop_st text_key max_records texts art_ids (enumerate 0 (list_items h2 articles)) h2;
          (people, h4) = extract_people_hf_st L h3 (ListIn texts) 16 128
      in case people of
           Inl e \<Rightarrow> (Inl e, h4)
         | Inr people_per_article \<Rightarrow>
             (let (sentiment_per_article, h5) = extract_sentiment_st L h4 (ListIn texts) 16 512 128;
                  (records, h6) = new_obj h5 (ListObj [])
              in (Inr records,
                  explode_st ''score'' records art_ids people_per_article sentiment_per_article h6)))"

text \<open>
  A store for the examples: at address 6 the list of the six example articles, which are
  the dicts at addresses 0 to 5; at address 7 a list of three texts.
\<close>

definition example_store :: store where
  "example_store =
     [DictObj [(''title'', VStr ''no text here'')],
      DictObj [(''text'', VStr ''Sam Altman'')],
      DictObj [(''text'', VStr '''')],
      DictObj [(''text'', VNone)],
      DictObj [(''text'', VStr ''Grace Hopper'')],
      DictObj [(''text'', VStr ''Geoffrey Hinton'')],
      ListObj [VRef 0, VRef 1, VRef 2, VRef 3, VRef 4, VRef 5],
      ListObj [VStr ''Sam Altman'', VStr ''Ada'', VStr ''Grace Hopper'']]"

section \<open>Example inputs\<close>

text \<open>
  Two wards and three intersection polygons: ward 1 (area 4) is covered completely by its
  two pieces (areas 1 and 3), ward 2 (area 10) is half covered by its single piece.
\<close>

definition example_cells_1 :: "string \<Rightarrow> real" where
  "example_cells_1 c = (if c = ''311_Noise'' then 8 else if c = ''STR_Apartment'' then 2 else 0)"

definition example_cells_2 :: "string \<Rightarrow> real" where
  "example_cells_2 c = (if c = ''311_Noise'' then 5 else if c = ''STR_Apartment'' then 20 else 0)"

definition example_ward_1 :: ward_row where
  "example_ward_1 = \<lparr>ward_number = 1, ward_geom_area = 4, ward_cells = example_cells_1\<rparr>"

definition example_ward_2 :: ward_row where
  "example_ward_2 = \<lparr>ward_number = 2, ward_geom_area = 10, ward_cells = example_cells_2\<rparr>"

definition example_gdf :: geoframe where
  "example_gdf =
     \<lparr>gdf_columns = [''Ward Number'', ''Ward Name'', ''geometry'', ''311_Noise'', ''STR_Apartment''],
      gdf_rows = [example_ward_1, example_ward_2]\<rparr>"

definition example_overlay :: "overlay_row list" where
  "example_overlay =
     [\<lparr>ov_ward_number = 1, ov_cells = example_cells_1, ov_cfsauid = ''M5V'', area_overlap = 1\<rparr>,
      \<lparr>ov_ward_number = 1, ov_cells = example_cells_1, ov_cfsauid = ''M4C'', area_overlap = 3\<rparr>,
      \<lparr>ov_ward_number = 2, ov_cells = example_cells_2, ov_cfsauid = ''M5V'', area_overlap = 5\<rparr>]"

text \<open>
  A library for the examples: every text yields a document with one PERSON entity (the
  text itself) and one ORG entity; every text yields three entities from the NER pipeline;
  every text has three windows (itself, \<open>bad\<close>, \<open>so-so\<close>) which score as positive 0.9,
  negative 0.5 and neutral 0.75.
\<close>

definition example_doc :: "string \<Rightarrow> doc" where
  "example_doc t =
     \<lparr>doc_tokens = [\<lparr>tok_text = t, tok_lemma = t, is_stop = False, is_punct = False\<rparr>,
                    \<lparr>tok_text = ''the'', tok_lemma = ''the'', is_stop = True, is_punct = False\<rparr>,
                    \<lparr>tok_text = ''.'', tok_lemma = ''.'', is_stop = False, is_punct = True\<rparr>],
      doc_ents = [\<lparr>span_text = t, span_label = ''PERSON''\<rparr>,
                  \<lparr>span_text = ''OpenAI'', span_label = ''ORG''\<rparr>],
      blob_polarity = 1 / 2\<rparr>"

definition example_entities :: "string \<Rightarrow> entity list" where
  "example_entities t =
     [\<lparr>ent_word = t, entity_group = ''PER''\<rparr>,
      \<lparr>ent_word = ''Sam'', entity_group = ''PER''\<rparr>,
      \<lparr>ent_word = ''Google Inc'', entity_group = ''ORG''\<rparr>]"

definition example_prediction :: "string \<Rightarrow> prediction" where
  "example_prediction chunk =
     (if chunk = ''bad'' then \<lparr>pred_label = ''negative'', pred_score = 1 / 2\<rparr>
      else if chunk = ''so-so'' then \<lparr>pred_label = ''neutral'', pred_score = 3 / 4\<rparr>
      else \<lparr>pred_label = ''POSITIVE'', pred_score = 9 / 10\<rparr>)"

definition example_lib :: library where
  "example_lib =
     \<lparr>nlp = example_doc,
      nlp_pipe = (\<lambda>texts batch_size disable. map example_doc texts),
      ner_pipeline = (\<lambda>batch batch_size stride. map example_entities batch),
      tokenizer_windows = (\<lambda>text max_len stride. [text, ''bad'', ''so-so'']),
      sentiment_pipeline = (\<lambda>chunks batch_size. map example_prediction chunks)\<rparr>"

definition example_articles :: "article list" where
  "example_articles =
     [[''title'' \<mapsto> PyStr ''no text here''],
      [''text'' \<mapsto> PyStr ''Sam Altman''],
      [''text'' \<mapsto> PyStr ''''],
      [''text'' \<mapsto> PyNone],
      [''text'' \<mapsto> PyStr ''Grace Hopper''],
      [''text'' \<mapsto> PyStr ''Geoffrey Hinton'']]"

section \<open>Auxiliary notions for the proofs\<close>

text \<open>
  The texts and the indices the selection loop would append on a list of enumerated
  articles, were it never to break.
\<close>

definition sel_texts :: "string \<Rightarrow> (nat \<times> article) list \<Rightarrow> string list" where
  "sel_texts k es = List.map_filter (\<lambda>(i, a). truthy_text a k) es"

definition sel_ids :: "string \<Rightarrow> (nat \<times> article) list \<Rightarrow> nat list" where
  "sel_ids k es = map fst (filter (\<lambda>(i, a). truthy (dict_get a k)) es)"

text \<open>
  The consecutive slices of at most \<open>b\<close> elements of a list; the articles that have a
  non-empty text, each with its index in the input list; and how many of these each
  version of \<^verbatim>\<open>build_person_sentiment_df\<close> keeps under \<^verbatim>\<open>max_records\<close>.
\<close>

definition batches_of :: "nat \<Rightarrow> 'a list \<Rightarrow> 'a list list" where
  "batches_of b xs = map (\<lambda>k. take b (drop (k * b) xs)) [0 ..< (length xs + b - 1) div b]"

definition rows_of :: "string \<Rightarrow> (nat \<times> article) list \<Rightarrow> (nat \<times> string) list" where
  "rows_of k es = List.map_filter (\<lambda>(i, a). map_option (Pair i) (truthy_text a k)) es"

definition text_rows :: "string \<Rightarrow> article list \<Rightarrow> (nat \<times> string) list" where
  "text_rows text_key articles =
     List.map_filter (\<lambda>(i, a). map_option (Pair i) (truthy_text a text_key)) (enumerate 0 articles)"

definition kept_spacy :: "int option \<Rightarrow> nat \<Rightarrow> nat" where
  "kept_spacy max_records n =
     (case max_records of None \<Rightarrow> n | Some m \<Rightarrow> if 0 \<le> m then nat m else n - nat (- m))"

definition kept_hf :: "int option \<Rightarrow> nat \<Rightarrow> nat" where
  "kept_hf max_records n =
     (case max_records of None \<Rightarrow> n | Some m \<Rightarrow> if m = 0 then n else if m < 0 then 1 else nat m)"

text \<open>
  A store \<open>h'\<close> keeps the first \<open>n\<close> objects of a store \<open>h\<close>: it is at least as long and
  agrees with \<open>h\<close> below address \<open>n\<close>.
\<close>

definition keeps :: "nat \<Rightarrow> store \<Rightarrow> store \<Rightarrow> bool" where
  "keeps n h h' = (n \<le> length h \<and> length h \<le> length h' \<and> take n h' = take n h)"

section \<open>The string operations on some inputs\<close>

lemma is_space_codes:
  "is_space c = (of_char c \<in> {9, 10, 11, 12, 13, 28, 29, 30, 31, 32, 133, 160 :: nat})"
  by (auto simp: is_space_def Let_def)

lemma strip_examples:
  "strip [CHR 0xA0, CHR ''A'', CHR ''d'', CHR ''a'', CHR '' '', CHR ''L'', CHR 0xA0] = ''Ada L''"
  "strip [CHR 0x85] = []"
  "strip [CHR 0x09, CHR 0x1C, CHR ''a'', CHR 0xA0, CHR ''b'', CHR 0x0A, CHR 0x20] = [CHR ''a'', CHR 0xA0, CHR ''b'']"
  by (simp_all add: strip_def is_space_def)

lemma lower_examples:
  "lower ''PoSiTive'' = ''positive''"
  "lower [CHR 0xC9, CHR ''T'', CHR 0xD7, CHR 0xDE, CHR 0xDF] = [CHR 0xE9, CHR ''t'', CHR 0xD7, CHR 0xFE, CHR 0xDF]"
  by (simp_all add: lower_def char_lower_def upper_chars_def lower_chars_def)

section \<open>Properties of the text selection\<close>

lemma truthy_text_None: "(truthy_text a k = None) = (\<not> truthy (dict_get a k))"
  by (simp add: truthy_text_def split: pyval.splits)

lemma sel_nil: "sel_texts k [] = []" "sel_ids k [] = []"
  by (simp_all add: sel_texts_def sel_ids_def map_filter_simps)

lemma sel_cons_none:
  "truthy_text a k = None \<Longrightarrow> sel_texts k ((i, a) # es) = sel_texts k es"
  "truthy_text a k = None \<Longrightarrow> sel_ids k ((i, a) # es) = sel_ids k es"
  using truthy_text_None[of a k] by (simp_all add: sel_texts_def sel_ids_def map_filter_simps)

lemma sel_cons_some:
  "truthy_text a k = Some t \<Longrightarrow> sel_texts k ((i, a) # es) = t # sel_texts k es"
  "truthy_text a k = Some t \<Longrightarrow> sel_ids k ((i, a) # es) = i # sel_ids k es"
   apply (simp_all add: sel_texts_def sel_ids_def map_filter_simps)
  using truthy_text_None[of a k] by simp

lemma collect_loop_unlimited:
  "\<not> (\<exists>m. max_records = Some m \<and> m \<noteq> 0) \<Longrightarrow> collect_loop k max_records es (ts, ids) = (ts @ sel_texts k es, ids @ sel_ids k es)"
proof (induction es arbitrary: ts ids)
  case Nil
  then show ?case by (simp add: sel_nil)
next
  case (Cons e es)
  obtain i a where e: "e = (i, a)" by (cases e)
  have nb: "\<And>n. \<not> break_now max_records n" using Cons.prems by (auto simp: break_now_def split: option.splits)
  show ?case
  proof (cases "truthy_text a k")
    case None
    then show ?thesis using Cons e by (simp add: sel_cons_none)
  next
    case (Some t)
    then show ?thesis using Cons e nb by (simp add: sel_cons_some)
  qed
qed

lemma collect_loop_limited:
  "1 \<le> m \<Longrightarrow> int (length ts) < m \<Longrightarrow> length ids = length ts \<Longrightarrow>
   collect_loop k (Some m) es (ts, ids) = (take (nat m) (ts @ sel_texts k es), take (nat m) (ids @ sel_ids k es))"
proof (induction es arbitrary: ts ids)
  case Nil
  then show ?case by (simp add: sel_nil)
next
  case (Cons e es)
  obtain i a where e: "e = (i, a)" by (cases e)
  show ?case
  proof (cases "truthy_text a k")
    case None
    then show ?thesis using Cons e by (simp add: sel_cons_none)
  next
    case (Some t)
    show ?thesis
    proof (cases "break_now (Some m) (length (ts @ [t]))")
      case True
      then have "nat m = length ts + 1" using Cons.prems by (simp add: break_now_def)
      then show ?thesis using Some e True Cons.prems by (simp add: sel_cons_some)
    next
      case False
      then have "int (length (ts @ [t])) < m" using Cons.prems by (simp add: break_now_def)
      then have "collect_loop k (Some m) es (ts @ [t], ids @ [i]) =
        (take (nat m) ((ts @ [t]) @ sel_texts k es), take (nat m) ((ids @ [i]) @ sel_ids k es))"
        using Cons.IH[of "ts @ [t]" "ids @ [i]"] Cons.prems by simp
      then show ?thesis using Some e False by (simp add: sel_cons_some)
    qed
  qed
qed

lemma collect_loop_negative:
  "m < 0 \<Longrightarrow> collect_loop k (Some m) es (ts, ids) = (ts @ take 1 (sel_texts k es), ids @ take 1 (sel_ids k es))"
proof (induction es arbitrary: ts ids)
  case Nil
  then show ?case by (simp add: sel_nil)
next
  case (Cons e es)
  obtain i a where e: "e = (i, a)" by (cases e)
  have b: "\<And>n. break_now (Some m) n" using Cons.prems by (simp add: break_now_def)
  show ?case
  proof (cases "truthy_text a k")
    case None
    then show ?thesis using Cons e by (simp add: sel_cons_none)
  next
    case (Some t)
    then show ?thesis using e b by (simp add: sel_cons_some)
  qed
qed

lemma sel_texts_enumerate: "sel_texts k (enumerate n articles) = List.map_filter (\<lambda>a. truthy_text a k) articles"
  by (induction articles arbitrary: n) (simp_all add: sel_texts_def map_filter_simps split: option.splits)

text \<open>
  Claim C2, amended.  The two text-selection steps agree whenever \<^verbatim>\<open>max_records\<close> is
  \<^verbatim>\<open>None\<close> or at least 1: for every article list and every key, the loop of the Hugging
  Face version (which breaks once \<^verbatim>\<open>max_records\<close> texts are gathered) yields the same
  texts and the same article ids as the spaCy version (which gathers all and slices).
\<close>

theorem selection_equivalent:
  assumes "\<forall>m. max_records = Some m \<longrightarrow> 1 \<le> m"
  shows "select_texts_hf articles text_key max_records = select_texts_spacy articles text_key max_records"
proof (cases max_records)
  case None
  then show ?thesis
    using collect_loop_unlimited[of None text_key "enumerate 0 articles" "[]" "[]"]
    by (simp add: select_texts_hf_def select_texts_spacy_def sel_texts_enumerate sel_ids_def)
next
  case (Some m)
  then have "1 \<le> m" using assms by simp
  then show ?thesis
    using Some collect_loop_limited[of m "[]" "[]" text_key "enumerate 0 articles"]
    by (simp add: select_texts_hf_def select_texts_spacy_def sel_texts_enumerate sel_ids_def py_slice_to_def)
qed

theorem selection_equivalent_witness:
  "select_texts_hf
     [[''text'' \<mapsto> PyStr ''a''], Map.empty, [''text'' \<mapsto> PyStr ''''], [''text'' \<mapsto> PyNone],
      [''text'' \<mapsto> PyStr ''b''], [''text'' \<mapsto> PyStr ''c'']] ''text'' (Some 2) = ([''a'', ''b''], [0, 4])
   \<and> select_texts_spacy
     [[''text'' \<mapsto> PyStr ''a''], Map.empty, [''text'' \<mapsto> PyStr ''''], [''text'' \<mapsto> PyNone],
      [''text'' \<mapsto> PyStr ''b''], [''text'' \<mapsto> PyStr ''c'']] ''text'' (Some 2) = ([''a'', ''b''], [0, 4])"
proof -
  have h: "\<forall>m. Some (2::int) = Some m \<longrightarrow> 1 \<le> m" by simp
  have "select_texts_hf
     [[''text'' \<mapsto> PyStr ''a''], Map.empty, [''text'' \<mapsto> PyStr ''''], [''text'' \<mapsto> PyNone],
      [''text'' \<mapsto> PyStr ''b''], [''text'' \<mapsto> PyStr ''c'']] ''text'' (Some 2) = ([''a'', ''b''], [0, 4])"
    by (simp add: select_texts_hf_def truthy_text_def dict_get_def break_now_def)
  then show ?thesis
    using selection_equivalent [OF h,
      of "[[''text'' \<mapsto> PyStr ''a''], Map.empty, [''text'' \<mapsto> PyStr ''''], [''text'' \<mapsto> PyNone],
           [''text'' \<mapsto> PyStr ''b''], [''text'' \<mapsto> PyStr ''c'']]" "''text''"]
    by simp
qed

text \<open>
  Claim C2 as stated fails at \<^verbatim>\<open>max_records = 0\<close>: the spaCy version slices both lists to
  nothing, the Hugging Face version treats \<open>0\<close> as no limit and keeps every text.
\<close>

theorem selection_zero_counterexample:
  "select_texts_spacy [[''text'' \<mapsto> PyStr ''a'']] ''text'' (Some 0) = ([], [])
   \<and> select_texts_hf [[''text'' \<mapsto> PyStr ''a'']] ''text'' (Some 0) = ([''a''], [0])
   \<and> select_texts_spacy [[''text'' \<mapsto> PyStr ''a'']] ''text'' (Some 0)
       \<noteq> select_texts_hf [[''text'' \<mapsto> PyStr ''a'']] ''text'' (Some 0)"
  by (simp add: select_texts_hf_def select_texts_spacy_def py_slice_to_def truthy_text_def
      dict_get_def break_now_def map_filter_simps enumerate_eq_zip)

lemma sel_rows: "sel_texts k es = map snd (rows_of k es)" "sel_ids k es = map fst (rows_of k es)"
proof (induction es)
  case Nil
  { case 1 show ?case by (simp add: sel_nil rows_of_def map_filter_simps) }
  { case 2 show ?case by (simp add: sel_nil rows_of_def map_filter_simps) }
next
  case (Cons e es)
  obtain i a where e: "e = (i, a)" by (cases e)
  have r: "rows_of k ((i, a) # es) = (case truthy_text a k of None \<Rightarrow> rows_of k es | Some t \<Rightarrow> (i, t) # rows_of k es)"
    by (simp add: rows_of_def map_filter_simps split: option.splits)
  { case 1 show ?case unfolding e r using Cons.IH(1)
      by (cases "truthy_text a k") (simp_all add: sel_cons_none sel_cons_some) }
  { case 2 show ?case unfolding e r using Cons.IH(2)
      by (cases "truthy_text a k") (simp_all add: sel_cons_none sel_cons_some) }
qed

lemma text_rows_rows_of: "text_rows k articles = rows_of k (enumerate 0 articles)"
  by (simp add: text_rows_def rows_of_def)

lemma select_texts_spacy_rows:
  "select_texts_spacy articles k mr =
     (map snd (take (kept_spacy mr (length (text_rows k articles))) (text_rows k articles)),
      map fst (take (kept_spacy mr (length (text_rows k articles))) (text_rows k articles)))"
proof -
  have t: "List.map_filter (\<lambda>a. truthy_text a k) articles = map snd (text_rows k articles)"
    using sel_texts_enumerate[of k 0 articles] by (simp add: sel_rows text_rows_rows_of)
  have i: "map fst (filter (\<lambda>(i, a). truthy (dict_get a k)) (enumerate 0 articles)) = map fst (text_rows k articles)"
    using sel_rows(2)[of k "enumerate 0 articles"] by (simp add: sel_ids_def text_rows_rows_of)
  have n: "nat (int n + m) = n - nat (- m)" if "m < 0" for n and m :: int
    using that by linarith
  show ?thesis
    unfolding select_texts_spacy_def t i
    by (cases mr) (simp_all add: kept_spacy_def py_slice_to_def take_map n)
qed

lemma select_texts_hf_rows:
  "select_texts_hf articles k mr =
     (map snd (take (kept_hf mr (length (text_rows k articles))) (text_rows k articles)),
      map fst (take (kept_hf mr (length (text_rows k articles))) (text_rows k articles)))"
proof (cases mr)
  case None
  then show ?thesis
    using collect_loop_unlimited[of None k "enumerate 0 articles" "[]" "[]"]
    by (simp add: select_texts_hf_def kept_hf_def sel_rows text_rows_rows_of)
next
  case (Some m)
  consider "m = 0" | "m < 0" | "1 \<le> m" by linarith
  then show ?thesis
  proof cases
    case 1
    then show ?thesis
      using Some collect_loop_unlimited[of "Some 0" k "enumerate 0 articles" "[]" "[]"]
      by (simp add: select_texts_hf_def kept_hf_def sel_rows text_rows_rows_of)
  next
    case 2
    then show ?thesis
      using Some collect_loop_negative[of m k "enumerate 0 articles" "[]" "[]"]
      by (simp add: select_texts_hf_def kept_hf_def sel_rows text_rows_rows_of take_map)
  next
    case 3
    then show ?thesis
      using Some collect_loop_limited[of m "[]" "[]" k "enumerate 0 articles"]
      by (simp add: select_texts_hf_def kept_hf_def sel_rows text_rows_rows_of take_map)
  qed
qed

lemma rows_of_index:
  "(i, t) \<in> set (rows_of k (enumerate n articles)) \<Longrightarrow>
     n \<le> i \<and> i < n + length articles \<and> dict_get (articles ! (i - n)) k = PyStr t \<and> t \<noteq> []"
proof (induction articles arbitrary: n)
  case Nil
  then show ?case by (simp add: rows_of_def map_filter_simps)
next
  case (Cons a articles)
  have r: "rows_of k (enumerate n (a # articles)) =
      (case truthy_text a k of None \<Rightarrow> rows_of k (enumerate (Suc n) articles)
       | Some t \<Rightarrow> (n, t) # rows_of k (enumerate (Suc n) articles))"
    by (simp add: rows_of_def map_filter_simps split: option.splits)
  have here: "truthy_text a k = Some t \<Longrightarrow> dict_get a k = PyStr t \<and> t \<noteq> []" for t
    by (auto simp: truthy_text_def split: pyval.splits if_splits)
  show ?case
  proof (cases "(i, t) \<in> set (rows_of k (enumerate (Suc n) articles))")
    case True
    from Cons.IH[OF True] have ih: "Suc n \<le> i" "i < Suc n + length articles"
      "dict_get (articles ! (i - Suc n)) k = PyStr t" "t \<noteq> []" by simp_all
    have "i - n = Suc (i - Suc n)" using ih(1) by arith
    then have "(a # articles) ! (i - n) = articles ! (i - Suc n)" by simp
    then show ?thesis using ih by simp
  next
    case False
    with Cons.prems r have "truthy_text a k = Some t" "i = n" by (auto split: option.splits)
    then show ?thesis using here by simp
  qed
qed

lemma rows_of_ids:
  "map fst (rows_of k (enumerate n articles)) =
     filter (\<lambda>i. truthy (dict_get (articles ! (i - n)) k)) [n ..< n + length articles]"
proof (induction articles arbitrary: n)
  case Nil
  then show ?case by (simp add: rows_of_def map_filter_simps)
next
  case (Cons a articles)
  have r: "rows_of k (enumerate n (a # articles)) =
      (case truthy_text a k of None \<Rightarrow> rows_of k (enumerate (Suc n) articles)
       | Some t \<Rightarrow> (n, t) # rows_of k (enumerate (Suc n) articles))"
    by (simp add: rows_of_def map_filter_simps split: option.splits)
  have f: "filter (\<lambda>i. truthy (dict_get ((a # articles) ! (i - n)) k)) [Suc n ..< Suc n + length articles]
         = filter (\<lambda>i. truthy (dict_get (articles ! (i - Suc n)) k)) [Suc n ..< Suc n + length articles]"
  proof (intro filter_cong refl)
    fix i assume "i \<in> set [Suc n ..< Suc n + length articles]"
    then have "i - n = Suc (i - Suc n)" by auto
    then have "(a # articles) ! (i - n) = articles ! (i - Suc n)" by simp
    then show "truthy (dict_get ((a # articles) ! (i - n)) k) = truthy (dict_get (articles ! (i - Suc n)) k)"
      by simp
  qed
  have e: "n + length (a # articles) = Suc n + length articles" by simp
  have "n < Suc n + length articles" by simp
  then have "[n ..< Suc n + length articles] = n # [Suc n ..< Suc n + length articles]"
    by (rule upt_conv_Cons)
  then have u: "[n ..< n + length (a # articles)] = n # [Suc n ..< Suc n + length articles]"
    unfolding e .
  have lhs: "map fst (rows_of k (enumerate n (a # articles))) =
      (if truthy (dict_get a k) then [n] else []) @ map fst (rows_of k (enumerate (Suc n) articles))"
    unfolding r using truthy_text_None[of a k] by (cases "truthy_text a k") simp_all
  have rhs: "filter (\<lambda>i. truthy (dict_get ((a # articles) ! (i - n)) k)) [n ..< n + length (a # articles)] =
      (if truthy (dict_get a k) then [n] else [])
        @ filter (\<lambda>i. truthy (dict_get (articles ! (i - Suc n)) k)) [Suc n ..< Suc n + length articles]"
    unfolding u using f by simp
  show ?case unfolding lhs rhs using Cons.IH[of "Suc n"] by (simp only:)
qed

lemma text_rows_ids:
  "map fst (text_rows k articles) = filter (\<lambda>i. truthy (dict_get (articles ! i) k)) [0 ..< length articles]"
  using rows_of_ids[of k 0 articles] by (simp add: text_rows_rows_of)

lemma text_rows_index:
  "(i, t) \<in> set (text_rows k articles) \<Longrightarrow>
     i < length articles \<and> dict_get (articles ! i) k = PyStr t \<and> t \<noteq> []"
  using rows_of_index[of i t k 0 articles] by (simp add: text_rows_rows_of)

lemma example_text_rows:
  "text_rows ''text'' example_articles = [(1, ''Sam Altman''), (4, ''Grace Hopper''), (5, ''Geoffrey Hinton'')]"
  by (simp add: text_rows_def example_articles_def map_filter_simps truthy_text_def dict_get_def enumerate_eq_zip upt_conv_Cons)

section \<open>Properties of the batching loop\<close>

lemma ner_loop_unfold:
  "ner_loop L texts batch_size stride starts (acc, calls) =
     (acc @ concat (map (\<lambda>s. map per_names
                (ner_pipeline L (take (nat batch_size) (drop s texts))
                   (int (length (take (nat batch_size) (drop s texts)))) stride)) starts),
      calls @ map (\<lambda>s. NerPipeline (take (nat batch_size) (drop s texts))
                   (int (length (take (nat batch_size) (drop s texts)))) stride) starts)"
  by (induction starts arbitrary: acc calls) (simp_all add: Let_def)

lemma concat_take_drop:
  "concat (map (\<lambda>k. take b (drop (k * b) xs)) [0 ..< m]) = take (m * b) xs"
proof (induction m)
  case 0
  then show ?case by simp
next
  case (Suc m)
  have "Suc m * b = m * b + b" by simp
  then have "take (Suc m * b) xs = take (m * b) xs @ take b (drop (m * b) xs)"
    by (simp only: take_add)
  then show ?case using Suc by simp
qed

lemma ceil_div_covers:
  assumes "0 < (b::nat)"
  shows "n \<le> (n + b - 1) div b * b"
proof -
  have "n + b - 1 < (n + b - 1) div b * b + b"
    using assms by (metis add.commute div_mult_mod_eq mod_less_divisor nat_add_left_cancel_less mult.commute)
  then show ?thesis using assms by linarith
qed

lemma concat_batches: "0 < b \<Longrightarrow> concat (batches_of b xs) = xs"
  using ceil_div_covers[of b "length xs"] by (simp add: batches_of_def concat_take_drop)

lemma batches_of_bounds:
  assumes b: "0 < b" and m: "batch \<in> set (batches_of b xs)"
  shows "batch \<noteq> [] \<and> length batch \<le> b"
proof -
  from m obtain k where k: "k < (length xs + b - 1) div b" and eq: "batch = take b (drop (k * b) xs)"
    by (auto simp: batches_of_def)
  have "k * b < length xs"
  proof (rule ccontr)
    assume "\<not> k * b < length xs"
    then have "length xs \<le> k * b" by simp
    then have "length xs + b - 1 < (k + 1) * b" using b by (simp add: algebra_simps)
    then have "(length xs + b - 1) div b < k + 1" using b by (simp add: div_less_iff_less_mult)
    then show False using k by simp
  qed
  then show ?thesis using eq b by simp
qed

lemma extract_people_hf_batches:
  assumes bs: "0 < batch_size"
  shows "extract_people_hf L texts batch_size stride =
     Inr (concat (map (\<lambda>batch. map per_names (ner_pipeline L batch (int (length batch)) stride))
                      (batches_of (nat batch_size) (as_list texts))),
          map (\<lambda>batch. NerPipeline batch (int (length batch)) stride)
              (batches_of (nat batch_size) (as_list texts)))"
proof -
  have r: "py_range0 (length (as_list texts)) batch_size =
      Inr (map (\<lambda>k. k * nat batch_size) [0 ..< (length (as_list texts) + nat batch_size - 1) div nat batch_size])"
    using bs by (simp add: py_range0_def)
  show ?thesis
    unfolding extract_people_hf_def r
    by (simp add: ner_loop_unfold batches_of_def comp_def)
qed

lemma extract_people_hf_pointwise:
  assumes bs: "0 < batch_size"
    and ner: "\<forall>batch n. ner_pipeline L batch n stride = map ents_of batch"
  shows "fst (projr (extract_people_hf L texts batch_size stride)) =
           map (\<lambda>t. per_names (ents_of t)) (as_list texts)"
proof -
  have "concat (map (\<lambda>batch. map per_names (ner_pipeline L batch (int (length batch)) stride))
                      (batches_of (nat batch_size) (as_list texts)))
      = concat (map (map (\<lambda>t. per_names (ents_of t))) (batches_of (nat batch_size) (as_list texts)))"
    using ner by (simp add: comp_def)
  also have "\<dots> = map (\<lambda>t. per_names (ents_of t)) (concat (batches_of (nat batch_size) (as_list texts)))"
    by (simp add: map_concat)
  also have "\<dots> = map (\<lambda>t. per_names (ents_of t)) (as_list texts)"
    using bs by (simp add: concat_batches)
  finally show ?thesis using extract_people_hf_batches[OF bs] by simp
qed

text \<open>
  Claim C3, amended.  \<^verbatim>\<open>count_tokens_pipe\<close>, the spaCy \<^verbatim>\<open>extract_people\<close> and
  \<^verbatim>\<open>score_sentiment\<close> make one \<^verbatim>\<open>nlp.pipe\<close> call on all their texts with the
  \<^verbatim>\<open>batch_size\<close> they were given; \<^verbatim>\<open>extract_sentiment\<close> passes its \<^verbatim>\<open>batch_size\<close> unchanged
  to the sentiment pipeline, once per text.  The Hugging Face \<^verbatim>\<open>extract_people\<close>, for a
  positive \<^verbatim>\<open>batch_size\<close>, cuts the texts itself into consecutive non-empty slices of at
  most \<^verbatim>\<open>batch_size\<close> texts and calls the NER pipeline once per slice, with the length of
  the slice as \<^verbatim>\<open>batch_size\<close>.
\<close>

theorem batch_size_forwarding:
  "snd (count_tokens_pipe L articles batch_size) =
      [NlpPipe (List.map_filter (\<lambda>a. not_none_text a ''text'') articles) batch_size [''ner'', ''parser'']]
   \<and> snd (extract_people_spacy L texts batch_size) =
      [NlpPipe texts batch_size [''parser'', ''tagger'', ''attribute_ruler'', ''lemmatizer'', ''spacytextblob'']]
   \<and> snd (score_sentiment L texts batch_size) =
      [NlpPipe texts batch_size [''parser'', ''tagger'', ''attribute_ruler'', ''lemmatizer'', ''ner'']]
   \<and> snd (extract_sentiment L hf_texts batch_size max_len stride) =
      concat (map (\<lambda>t. [TokenizerWindows t max_len stride,
                         SentimentPipeline (tokenizer_windows L t max_len stride) batch_size])
                  (as_list hf_texts))
   \<and> (0 < batch_size \<longrightarrow>
        (\<exists>people. extract_people_hf L hf_texts batch_size stride =
           Inr (people, map (\<lambda>batch. NerPipeline batch (int (length batch)) stride)
                            (batches_of (nat batch_size) (as_list hf_texts))))
        \<and> concat (batches_of (nat batch_size) (as_list hf_texts)) = as_list hf_texts
        \<and> (\<forall>batch\<in>set (batches_of (nat batch_size) (as_list hf_texts)).
              batch \<noteq> [] \<and> int (length batch) \<le> batch_size))"
proof -
  have a: "snd (count_tokens_pipe L articles batch_size) =
      [NlpPipe (List.map_filter (\<lambda>a. not_none_text a ''text'') articles) batch_size [''ner'', ''parser'']]"
    by (simp add: count_tokens_pipe_def Let_def)
  have b: "snd (extract_people_spacy L texts batch_size) =
      [NlpPipe texts batch_size [''parser'', ''tagger'', ''attribute_ruler'', ''lemmatizer'', ''spacytextblob'']]"
    by (simp add: extract_people_spacy_def Let_def)
  have c: "snd (score_sentiment L texts batch_size) =
      [NlpPipe texts batch_size [''parser'', ''tagger'', ''attribute_ruler'', ''lemmatizer'', ''ner'']]"
    by (simp add: score_sentiment_def Let_def)
  have d: "snd (extract_sentiment L hf_texts batch_size max_len stride) =
      concat (map (\<lambda>t. [TokenizerWindows t max_len stride,
                         SentimentPipeline (tokenizer_windows L t max_len stride) batch_size])
                  (as_list hf_texts))"
    by (simp add: extract_sentiment_def score_long_text_def Let_def comp_def)
  have e: "(\<exists>people. extract_people_hf L hf_texts batch_size stride =
           Inr (people, map (\<lambda>batch. NerPipeline batch (int (length batch)) stride)
                            (batches_of (nat batch_size) (as_list hf_texts))))
        \<and> concat (batches_of (nat batch_size) (as_list hf_texts)) = as_list hf_texts
        \<and> (\<forall>batch\<in>set (batches_of (nat batch_size) (as_list hf_texts)).
              batch \<noteq> [] \<and> int (length batch) \<le> batch_size)"
    if bs: "0 < batch_size"
  proof -
    have nb: "0 < nat batch_size" using bs by simp
    have "\<forall>batch\<in>set (batches_of (nat batch_size) (as_list hf_texts)).
              batch \<noteq> [] \<and> int (length batch) \<le> batch_size"
      using batches_of_bounds[OF nb] bs by fastforce
    then show ?thesis
      using extract_people_hf_batches[OF bs, of L hf_texts stride] concat_batches[OF nb] by blast
  qed
  from a b c d e show ?thesis by blast
qed

theorem batch_size_forwarding_witness:
  "snd (extract_people_spacy example_lib [''a'', ''b'', ''c'', ''d'', ''e''] 2) =
      [NlpPipe [''a'', ''b'', ''c'', ''d'', ''e''] 2
         [''parser'', ''tagger'', ''attribute_ruler'', ''lemmatizer'', ''spacytextblob'']]
   \<and> batches_of (nat 2) (as_list (StrList [''a'', ''b'', ''c'', ''d'', ''e''])) = [[''a'', ''b''], [''c'', ''d''], [''e'']]
   \<and> (\<exists>people. extract_people_hf example_lib (StrList [''a'', ''b'', ''c'', ''d'', ''e'']) 2 128 =
         Inr (people, [NerPipeline [''a'', ''b''] 2 128, NerPipeline [''c'', ''d''] 2 128, NerPipeline [''e''] 1 128]))"
proof -
  have b: "batches_of (nat 2) (as_list (StrList [''a'', ''b'', ''c'', ''d'', ''e''])) = [[''a'', ''b''], [''c'', ''d''], [''e'']]"
    by (simp add: batches_of_def upt_conv_Cons)
  show ?thesis
    using batch_size_forwarding[of example_lib "[]" 2 "[''a'', ''b'', ''c'', ''d'', ''e'']"
            "StrList [''a'', ''b'', ''c'', ''d'', ''e'']" 512 128]
    unfolding b by simp
qed

text \<open>
  Claim C3 as stated fails for the Hugging Face \<^verbatim>\<open>extract_people\<close>: on three texts with
  \<^verbatim>\<open>batch_size=2\<close> it calls the pipeline twice, on a slice of two texts and on a slice of
  one text with \<^verbatim>\<open>batch_size=1\<close>, not once on the three texts with \<^verbatim>\<open>batch_size=2\<close>.
\<close>

theorem hf_extract_people_batches_counterexample:
  "extract_people_hf example_lib (StrList [''Sam Altman'', ''Ada'', ''Grace Hopper'']) 2 128 =
     Inr ([[''Sam Altman''], [], [''Grace Hopper'']],
          [NerPipeline [''Sam Altman'', ''Ada''] 2 128, NerPipeline [''Grace Hopper''] 1 128])
   \<and> [NerPipeline [''Sam Altman'', ''Ada''] 2 128, NerPipeline [''Grace Hopper''] 1 128]
       \<noteq> [NerPipeline [''Sam Altman'', ''Ada'', ''Grace Hopper''] 2 128]"
  by (simp add: extract_people_hf_def py_range0_def upt_conv_Cons example_lib_def per_names_def
      example_entities_def strip_def is_space_def Let_def)

section \<open>Properties of the sentiment scores\<close>

lemma signed_score_cases:
  "signed_score p =
     (if lower (pred_label p) = ''positive'' then pred_score p
      else if lower (pred_label p) = ''negative'' then - pred_score p else 0)"
  by (simp add: signed_score_def)

lemma signed_score_bounds:
  assumes "0 \<le> pred_score p" "pred_score p \<le> 1"
  shows "- 1 \<le> signed_score p \<and> signed_score p \<le> 1"
  using assms by (simp add: signed_score_cases)

lemma sum_list_upper:
  fixes xs :: "real list"
  shows "\<forall>x\<in>set xs. x \<le> 1 \<Longrightarrow> sum_list xs \<le> real (length xs)"
  by (induction xs) (auto simp: add_mono)

lemma sum_list_lower:
  fixes xs :: "real list"
  shows "\<forall>x\<in>set xs. - 1 \<le> x \<Longrightarrow> - real (length xs) \<le> sum_list xs"
  by (induction xs) (auto simp: add_mono)

lemma mean_bounds:
  fixes xs :: "real list"
  assumes ne: "xs \<noteq> []" and b: "\<forall>x\<in>set xs. - 1 \<le> x \<and> x \<le> 1"
  shows "- 1 \<le> sum_list xs / real (length xs) \<and> sum_list xs / real (length xs) \<le> 1"
proof -
  have n: "0 < real (length xs)" using ne by simp
  have "sum_list xs \<le> real (length xs)" using b by (intro sum_list_upper) blast
  moreover have "- real (length xs) \<le> sum_list xs" using b by (intro sum_list_lower) blast
  ultimately show ?thesis using n by (simp add: field_simps)
qed

lemma score_long_text_mean:
  assumes scores: "\<forall>p\<in>set (sentiment_pipeline L (tokenizer_windows L text max_len stride) batch_size).
                     0 \<le> pred_score p \<and> pred_score p \<le> 1"
    and ne: "sentiment_pipeline L (tokenizer_windows L text max_len stride) batch_size \<noteq> []"
  shows "\<exists>m. fst (score_long_text L text max_len stride batch_size) = Finite m \<and>
           m = sum_list (map signed_score (sentiment_pipeline L (tokenizer_windows L text max_len stride) batch_size))
                 / real (length (sentiment_pipeline L (tokenizer_windows L text max_len stride) batch_size)) \<and>
           - 1 \<le> m \<and> m \<le> 1"
proof -
  let ?preds = "sentiment_pipeline L (tokenizer_windows L text max_len stride) batch_size"
  let ?signed = "map signed_score ?preds"
  have ne': "?signed \<noteq> []" using ne by simp
  have "\<forall>x\<in>set ?signed. - 1 \<le> x \<and> x \<le> 1"
    using scores signed_score_bounds by auto
  from mean_bounds[OF ne' this]
  have "- 1 \<le> sum_list ?signed / real (length ?preds) \<and> sum_list ?signed / real (length ?preds) \<le> 1"
    by simp
  moreover have "fst (score_long_text L text max_len stride batch_size) = Finite (sum_list ?signed / real (length ?preds))"
    using ne by (simp add: score_long_text_def np_mean_def Let_def)
  ultimately show ?thesis by blast
qed

lemma extract_sentiment_fst:
  "fst (extract_sentiment L texts batch_size max_len stride) =
     map (\<lambda>t. fst (score_long_text L t max_len stride batch_size)) (as_list texts)"
  by (simp add: extract_sentiment_def Let_def comp_def)

text \<open>
  Claim C10.  Let every prediction the sentiment pipeline returns for the windows of a text
  have a score in \<open>[0, 1]\<close>, and let it return at least one prediction.  Then
  \<^verbatim>\<open>_score_long_text\<close> returns a finite value in \<open>[-1, 1]\<close>: the mean of the window scores,
  each taken with sign \<open>+1\<close> for the label positive, \<open>-1\<close> for negative and weight \<open>0\<close> for any
  other label (labels compared in lower case).  Hence every element returned by
  \<^verbatim>\<open>extract_sentiment\<close> lies in \<open>[-1, 1]\<close>.
\<close>

theorem sentiment_in_range:
  assumes scores: "\<forall>t\<in>set (as_list texts).
       \<forall>p\<in>set (sentiment_pipeline L (tokenizer_windows L t max_len stride) batch_size).
          0 \<le> pred_score p \<and> pred_score p \<le> 1"
    and ne: "\<forall>t\<in>set (as_list texts).
       sentiment_pipeline L (tokenizer_windows L t max_len stride) batch_size \<noteq> []"
  shows "(\<forall>t\<in>set (as_list texts).
           \<exists>m. fst (score_long_text L t max_len stride batch_size) = Finite m \<and>
             m = sum_list (map (\<lambda>p. if lower (pred_label p) = ''positive'' then pred_score p
                                    else if lower (pred_label p) = ''negative'' then - pred_score p
                                    else 0)
                            (sentiment_pipeline L (tokenizer_windows L t max_len stride) batch_size))
                 / real (length (sentiment_pipeline L (tokenizer_windows L t max_len stride) batch_size)) \<and>
             - 1 \<le> m \<and> m \<le> 1)
       \<and> (\<forall>v\<in>set (fst (extract_sentiment L texts batch_size max_len stride)).
             \<exists>m. v = Finite m \<and> - 1 \<le> m \<and> m \<le> 1)"
proof -
  have one: "\<exists>m. fst (score_long_text L t max_len stride batch_size) = Finite m \<and>
             m = sum_list (map (\<lambda>p. if lower (pred_label p) = ''positive'' then pred_score p
                                    else if lower (pred_label p) = ''negative'' then - pred_score p
                                    else 0)
                            (sentiment_pipeline L (tokenizer_windows L t max_len stride) batch_size))
                 / real (length (sentiment_pipeline L (tokenizer_windows L t max_len stride) batch_size)) \<and>
             - 1 \<le> m \<and> m \<le> 1"
    if t: "t \<in> set (as_list texts)" for t
  proof -
    have s: "\<forall>p\<in>set (sentiment_pipeline L (tokenizer_windows L t max_len stride) batch_size).
                     0 \<le> pred_score p \<and> pred_score p \<le> 1"
      using scores t by blast
    have n: "sentiment_pipeline L (tokenizer_windows L t max_len stride) batch_size \<noteq> []"
      using ne t by blast
    have eq: "map signed_score (sentiment_pipeline L (tokenizer_windows L t max_len stride) batch_size)
        = map (\<lambda>p. if lower (pred_label p) = ''positive'' then pred_score p
                                    else if lower (pred_label p) = ''negative'' then - pred_score p
                                    else 0)
                            (sentiment_pipeline L (tokenizer_windows L t max_len stride) batch_size)"
      by (simp add: signed_score_cases)
    show ?thesis using score_long_text_mean[OF s n, unfolded eq] .
  qed
  then have "\<forall>v\<in>set (fst (extract_sentiment L texts batch_size max_len stride)).
             \<exists>m. v = Finite m \<and> - 1 \<le> m \<and> m \<le> 1"
    unfolding extract_sentiment_fst by fastforce
  with one show ?thesis by blast
qed

theorem sentiment_in_range_witness:
  "fst (extract_sentiment example_lib (StrList [''good'', ''bad'']) 16 512 128)
     = [Finite (2 / 15), Finite (- 1 / 3)]"
proof -
  have s: "\<forall>t\<in>set (as_list (StrList [''good'', ''bad''])).
       \<forall>p\<in>set (sentiment_pipeline example_lib (tokenizer_windows example_lib t 512 128) 16).
          0 \<le> pred_score p \<and> pred_score p \<le> 1"
    by (simp add: example_lib_def example_prediction_def)
  have n: "\<forall>t\<in>set (as_list (StrList [''good'', ''bad''])).
       sentiment_pipeline example_lib (tokenizer_windows example_lib t 512 128) 16 \<noteq> []"
    by (simp add: example_lib_def)
  show ?thesis
    using sentiment_in_range[OF s n]
    by (simp add: extract_sentiment_def score_long_text_def np_mean_def signed_score_def
        example_lib_def example_prediction_def lower_def char_lower_def upper_chars_def lower_chars_def)
qed

section \<open>Results line up with the input texts\<close>

text \<open>
  Claim C8, amended.  Let the library work text by text: \<^verbatim>\<open>nlp.pipe\<close> yields one document
  per text and the NER pipeline one entity list per text of a batch, whatever the batch
  size.  Then the spaCy \<^verbatim>\<open>extract_people\<close>, \<^verbatim>\<open>score_sentiment\<close>, the Hugging Face
  \<^verbatim>\<open>extract_people\<close> called with a positive \<^verbatim>\<open>batch_size\<close>, and \<^verbatim>\<open>extract_sentiment\<close> each
  return a list as long as the list of texts whose element at position \<open>i\<close> is computed
  from the text at position \<open>i\<close>; the two Hugging Face functions treat a single string as
  the one-element list.
\<close>

theorem results_align_with_texts:
  assumes nlp: "\<forall>dis. nlp_pipe L texts batch_size dis = map (doc_of dis) texts"
    and ner: "\<forall>batch n. ner_pipeline L batch n stride = map ents_of batch"
    and bs: "0 < hf_batch_size"
  shows "fst (extract_people_spacy L texts batch_size) =
           map (\<lambda>t. person_names
                  (doc_of [''parser'', ''tagger'', ''attribute_ruler'', ''lemmatizer'', ''spacytextblob''] t)) texts
       \<and> length (fst (extract_people_spacy L texts batch_size)) = length texts
       \<and> fst (score_sentiment L texts batch_size) =
           map (\<lambda>t. blob_polarity
                  (doc_of [''parser'', ''tagger'', ''attribute_ruler'', ''lemmatizer'', ''ner''] t)) texts
       \<and> length (fst (score_sentiment L texts batch_size)) = length texts
       \<and> (\<exists>calls. extract_people_hf L hf_texts hf_batch_size stride =
             Inr (map (\<lambda>t. per_names (ents_of t)) (as_list hf_texts), calls))
       \<and> fst (extract_sentiment L hf_texts s_batch_size max_len s_stride) =
           map (\<lambda>t. fst (score_long_text L t max_len s_stride s_batch_size)) (as_list hf_texts)
       \<and> length (fst (extract_sentiment L hf_texts s_batch_size max_len s_stride)) = length (as_list hf_texts)
       \<and> extract_people_hf L (OneStr s) hf_batch_size stride = extract_people_hf L (StrList [s]) hf_batch_size stride
       \<and> extract_sentiment L (OneStr s) s_batch_size max_len s_stride =
           extract_sentiment L (StrList [s]) s_batch_size max_len s_stride"
proof -
  have p: "fst (extract_people_spacy L texts batch_size) =
           map (\<lambda>t. person_names
                  (doc_of [''parser'', ''tagger'', ''attribute_ruler'', ''lemmatizer'', ''spacytextblob''] t)) texts"
    using nlp by (simp add: extract_people_spacy_def Let_def comp_def)
  have q: "fst (score_sentiment L texts batch_size) =
           map (\<lambda>t. blob_polarity
                  (doc_of [''parser'', ''tagger'', ''attribute_ruler'', ''lemmatizer'', ''ner''] t)) texts"
    using nlp by (simp add: score_sentiment_def Let_def comp_def)
  have h: "\<exists>calls. extract_people_hf L hf_texts hf_batch_size stride =
             Inr (map (\<lambda>t. per_names (ents_of t)) (as_list hf_texts), calls)"
    using extract_people_hf_pointwise[OF bs ner, of hf_texts] extract_people_hf_batches[OF bs, of L hf_texts stride]
    by simp
  have e: "fst (extract_sentiment L hf_texts s_batch_size max_len s_stride) =
           map (\<lambda>t. fst (score_long_text L t max_len s_stride s_batch_size)) (as_list hf_texts)"
    by (rule extract_sentiment_fst)
  have o1: "extract_people_hf L (OneStr s) hf_batch_size stride = extract_people_hf L (StrList [s]) hf_batch_size stride"
  proof -
    have "as_list (OneStr s) = as_list (StrList [s])" by simp
    then show ?thesis by (simp only: extract_people_hf_def)
  qed
  have o2: "extract_sentiment L (OneStr s) s_batch_size max_len s_stride =
           extract_sentiment L (StrList [s]) s_batch_size max_len s_stride"
    by (simp add: extract_sentiment_def)
  have lp: "length (fst (extract_people_spacy L texts batch_size)) = length texts" unfolding p by simp
  have lq: "length (fst (score_sentiment L texts batch_size)) = length texts" unfolding q by simp
  have le: "length (fst (extract_sentiment L hf_texts s_batch_size max_len s_stride)) = length (as_list hf_texts)"
    unfolding e by simp
  from p lp q lq h e le o1 o2 show ?thesis by blast
qed

theorem results_align_with_texts_witness:
  "fst (extract_people_spacy example_lib [''Sam Altman'', ''Ada''] 64) = [[''Sam Altman''], [''Ada'']]
   \<and> fst (score_sentiment example_lib [''Sam Altman'', ''Ada''] 64) = [1 / 2, 1 / 2]
   \<and> (\<exists>calls. extract_people_hf example_lib (StrList [''Sam Altman'', ''Ada'', '' Geoffrey Hinton '']) 2 128 =
         Inr ([[''Sam Altman''], [], [''Geoffrey Hinton'']], calls))
   \<and> extract_people_hf example_lib (OneStr ''Sam Altman'') 2 128 =
       extract_people_hf example_lib (StrList [''Sam Altman'']) 2 128"
proof -
  have nlp: "\<forall>dis. nlp_pipe example_lib [''Sam Altman'', ''Ada''] 64 dis = map ((\<lambda>dis. example_doc) dis) [''Sam Altman'', ''Ada'']"
    by (simp add: example_lib_def)
  have ner: "\<forall>batch n. ner_pipeline example_lib batch n 128 = map example_entities batch"
    by (simp add: example_lib_def)
  have bs: "0 < (2::int)" by simp
  show ?thesis
    using results_align_with_texts[OF nlp ner bs,
        of "StrList [''Sam Altman'', ''Ada'', '' Geoffrey Hinton '']" 16 512 128 "''Sam Altman''"]
    by (simp add: person_names_def per_names_def example_doc_def example_entities_def strip_def is_space_def)
qed

text \<open>
  Claim C8 as stated fails for the Hugging Face \<^verbatim>\<open>extract_people\<close> when \<^verbatim>\<open>batch_size\<close> is
  not positive: with \<^verbatim>\<open>batch_size=-1\<close> the range of the loop is empty and three texts give
  the empty list, and with \<^verbatim>\<open>batch_size=0\<close> the range raises \<^verbatim>\<open>ValueError\<close>.
\<close>

theorem hf_extract_people_nonpositive_counterexample:
  "extract_people_hf example_lib (StrList [''Sam Altman'', ''Ada'', ''Grace Hopper'']) (- 1) 128 = Inr ([], [])
   \<and> length (as_list (StrList [''Sam Altman'', ''Ada'', ''Grace Hopper''])) = 3
   \<and> extract_people_hf example_lib (StrList [''Sam Altman'', ''Ada'', ''Grace Hopper'']) 0 128 = Inl ValueError"
  by (simp add: extract_people_hf_def py_range0_def)

section \<open>The person and sentiment table\<close>

lemma build_spacy_unfold:
  "build_person_sentiment_df_spacy L articles text_key max_records =
     (explode (snd (select_texts_spacy articles text_key max_records))
        (fst (extract_people_spacy L (fst (select_texts_spacy articles text_key max_records)) 64))
        (fst (score_sentiment L (fst (select_texts_spacy articles text_key max_records)) 64)),
      snd (extract_people_spacy L (fst (select_texts_spacy articles text_key max_records)) 64)
        @ snd (score_sentiment L (fst (select_texts_spacy articles text_key max_records)) 64))"
  by (simp add: build_person_sentiment_df_spacy_def split_beta Let_def)

lemma build_hf_unfold:
  assumes "extract_people_hf L (StrList (fst (select_texts_hf articles text_key max_records))) 16 128 = Inr (people, calls)"
  shows "build_person_sentiment_df_hf L articles text_key max_records =
     Inr (explode (snd (select_texts_hf articles text_key max_records)) people
            (fst (extract_sentiment L (StrList (fst (select_texts_hf articles text_key max_records))) 16 512 128)),
          calls @ snd (extract_sentiment L (StrList (fst (select_texts_hf articles text_key max_records))) 16 512 128))"
  using assms by (simp add: build_person_sentiment_df_hf_def split_beta Let_def)

lemma explode_rows:
  "explode (map fst rs) (map (\<lambda>r. f (snd r)) rs) (map (\<lambda>r. g (snd r)) rs) =
     concat (map (\<lambda>(i, t). map (\<lambda>name. (i, name, g t)) (f t)) rs)"
  by (induction rs) (auto simp: explode_def)

text \<open>
  Claim C5.  Let the library work text by text.  Then both versions of
  \<^verbatim>\<open>build_person_sentiment_df\<close> return, for the articles kept under \<^verbatim>\<open>max_records\<close> in
  input order, one row per person name found in the article's text, holding the article's
  index in the input list, the name, and the sentiment score of the article's whole text.
  The articles that can be kept are exactly those whose value under \<^verbatim>\<open>text_key\<close> is a
  non-empty string, each with its index in the input list; the articles kept are the first
  ones of these, as many as \<^verbatim>\<open>max_records\<close> allows.
\<close>

theorem person_sentiment_rows:
  assumes nlp: "\<forall>ts dis. nlp_pipe L ts 64 dis = map (doc_of dis) ts"
    and ner: "\<forall>batch n. ner_pipeline L batch n 128 = map ents_of batch"
  shows "fst (build_person_sentiment_df_spacy L articles text_key max_records) =
           concat (map (\<lambda>(i, t). map (\<lambda>name. (i, name,
                           blob_polarity (doc_of [''parser'', ''tagger'', ''attribute_ruler'', ''lemmatizer'', ''ner''] t)))
                         (person_names
                           (doc_of [''parser'', ''tagger'', ''attribute_ruler'', ''lemmatizer'', ''spacytextblob''] t)))
                       (take (kept_spacy max_records (length (text_rows text_key articles)))
                             (text_rows text_key articles)))
       \<and> (\<exists>calls. build_person_sentiment_df_hf L articles text_key max_records =
             Inr (concat (map (\<lambda>(i, t). map (\<lambda>name. (i, name, fst (score_long_text L t 512 128 16)))
                                     (per_names (ents_of t)))
                       (take (kept_hf max_records (length (text_rows text_key articles)))
                             (text_rows text_key articles))),
                  calls))
       \<and> map fst (text_rows text_key articles) =
           filter (\<lambda>i. truthy (dict_get (articles ! i) text_key)) [0 ..< length articles]
       \<and> (\<forall>(i, t)\<in>set (text_rows text_key articles).
             i < length articles \<and> dict_get (articles ! i) text_key = PyStr t \<and> t \<noteq> [])"
proof -
  let ?rs = "take (kept_spacy max_records (length (text_rows text_key articles))) (text_rows text_key articles)"
  let ?rh = "take (kept_hf max_records (length (text_rows text_key articles))) (text_rows text_key articles)"
  let ?d1 = "[''parser'', ''tagger'', ''attribute_ruler'', ''lemmatizer'', ''spacytextblob'']"
  let ?d2 = "[''parser'', ''tagger'', ''attribute_ruler'', ''lemmatizer'', ''ner'']"
  have ss: "select_texts_spacy articles text_key max_records = (map snd ?rs, map fst ?rs)"
    by (rule select_texts_spacy_rows)
  have sh: "select_texts_hf articles text_key max_records = (map snd ?rh, map fst ?rh)"
    by (rule select_texts_hf_rows)
  have p: "fst (extract_people_spacy L (map snd ?rs) 64) = map (\<lambda>r. person_names (doc_of ?d1 (snd r))) ?rs"
    using nlp by (simp add: extract_people_spacy_def Let_def comp_def)
  have q: "fst (score_sentiment L (map snd ?rs) 64) = map (\<lambda>r. blob_polarity (doc_of ?d2 (snd r))) ?rs"
    using nlp by (simp add: score_sentiment_def Let_def comp_def)
  have A: "fst (build_person_sentiment_df_spacy L articles text_key max_records) =
      concat (map (\<lambda>(i, t). map (\<lambda>name. (i, name, blob_polarity (doc_of ?d2 t))) (person_names (doc_of ?d1 t))) ?rs)"
    unfolding build_spacy_unfold ss fst_conv snd_conv p q
    by (rule explode_rows[of ?rs "\<lambda>t. person_names (doc_of ?d1 t)" "\<lambda>t. blob_polarity (doc_of ?d2 t)"])
  have bs: "0 < (16::int)" by simp
  obtain calls where hp: "extract_people_hf L (StrList (map snd ?rh)) 16 128 =
       Inr (map (\<lambda>t. per_names (ents_of t)) (map snd ?rh), calls)"
    using extract_people_hf_pointwise[OF bs ner, of "StrList (map snd ?rh)"]
      extract_people_hf_batches[OF bs, of L "StrList (map snd ?rh)" 128]
    by simp
  have es: "fst (extract_sentiment L (StrList (map snd ?rh)) 16 512 128) =
      map (\<lambda>r. fst (score_long_text L (snd r) 512 128 16)) ?rh"
    by (simp add: extract_sentiment_fst comp_def)
  have hp': "extract_people_hf L (StrList (fst (select_texts_hf articles text_key max_records))) 16 128 =
       Inr (map (\<lambda>r. per_names (ents_of (snd r))) ?rh, calls)"
    unfolding sh fst_conv using hp by (simp add: comp_def)
  have B: "\<exists>calls. build_person_sentiment_df_hf L articles text_key max_records =
             Inr (concat (map (\<lambda>(i, t). map (\<lambda>name. (i, name, fst (score_long_text L t 512 128 16)))
                                     (per_names (ents_of t))) ?rh), calls)"
    unfolding build_hf_unfold[OF hp'] unfolding sh fst_conv snd_conv es
    using explode_rows[of ?rh "\<lambda>t. per_names (ents_of t)" "\<lambda>t. fst (score_long_text L t 512 128 16)"]
    by simp
  have C: "\<forall>(i, t)\<in>set (text_rows text_key articles).
             i < length articles \<and> dict_get (articles ! i) text_key = PyStr t \<and> t \<noteq> []"
    using text_rows_index by blast
  from A B text_rows_ids[of text_key articles] C show ?thesis by blast
qed

theorem person_sentiment_rows_witness:
  "fst (build_person_sentiment_df_spacy example_lib example_articles ''text'' (Some 2)) =
      [(1, ''Sam Altman'', 1 / 2), (4, ''Grace Hopper'', 1 / 2)]
   \<and> (\<exists>calls. build_person_sentiment_df_hf example_lib example_articles ''text'' (Some 2) =
         Inr ([(1, ''Sam Altman'', Finite (2 / 15)), (4, ''Grace Hopper'', Finite (2 / 15))], calls))"
proof -
  have nlp: "\<forall>ts dis. nlp_pipe example_lib ts 64 dis = map ((\<lambda>dis. example_doc) dis) ts"
    by (simp add: example_lib_def)
  have ner: "\<forall>batch n. ner_pipeline example_lib batch n 128 = map example_entities batch"
    by (simp add: example_lib_def)
  have s: "fst (score_long_text example_lib t 512 128 16) =
     Finite ((signed_score (example_prediction t) - 1 / 2) / 3)" for t
    by (simp add: score_long_text_def np_mean_def example_lib_def Let_def signed_score_def
        example_prediction_def lower_def char_lower_def upper_chars_def lower_chars_def)
  have sp: "signed_score (example_prediction ''Sam Altman'') = 9 / 10"
     "signed_score (example_prediction ''Grace Hopper'') = 9 / 10"
    by (simp_all add: signed_score_def example_prediction_def lower_def char_lower_def upper_chars_def lower_chars_def)
  show ?thesis
    using person_sentiment_rows[OF nlp ner, of example_articles "''text''" "Some 2"]
    unfolding example_text_rows s
    by (simp add: kept_spacy_def kept_hf_def person_names_def per_names_def example_doc_def
        example_entities_def strip_def is_space_def sp)
qed

section \<open>What the wrappers add to the model calls\<close>

lemma fold_count_token:
  "fold (\<lambda>t c. count_token c t) ts c0 lem =
     (let n = length (filter (\<lambda>t. \<not> is_stop t \<and> \<not> is_punct t \<and> strip (tok_lemma t) \<noteq> [] \<and> tok_lemma t = lem) ts)
      in case c0 lem of None \<Rightarrow> (if n = 0 then None else Some n) | Some k \<Rightarrow> Some (k + n))"
proof (induction ts arbitrary: c0)
  case Nil
  then show ?case by (simp split: option.splits)
next
  case (Cons t ts)
  show ?case
    unfolding fold_Cons comp_def Cons.IH
    by (auto simp: count_token_def Let_def split: option.splits)
qed

lemma count_tokens_pipe_counter:
  "fst (count_tokens_pipe L articles batch_size) lem =
     (let n = length (filter (\<lambda>t. \<not> is_stop t \<and> \<not> is_punct t \<and> strip (tok_lemma t) \<noteq> [] \<and> tok_lemma t = lem)
                (concat (map doc_tokens
                   (nlp_pipe L (List.map_filter (\<lambda>a. not_none_text a ''text'') articles) batch_size [''ner'', ''parser'']))))
      in if n = 0 then None else Some n)"
proof -
  have f: "fold (\<lambda>d token_counter. fold (\<lambda>t c. count_token c t) (doc_tokens d) token_counter) docs c0
         = fold (\<lambda>t c. count_token c t) (concat (map doc_tokens docs)) c0" for docs c0
    by (induction docs arbitrary: c0) simp_all
  show ?thesis
    unfolding count_tokens_pipe_def Let_def fst_conv f fold_count_token
    by (simp add: Let_def)
qed

text \<open>
  Claim C4, amended.  \<^verbatim>\<open>lemmatize_sentence\<close> and \<^verbatim>\<open>score_sentiment\<close> make one model call
  and only reshape its output.  The other functions do more of their own: the spaCy
  \<^verbatim>\<open>extract_people\<close> keeps only the entities labelled PERSON; \<^verbatim>\<open>count_tokens_pipe\<close> drops
  stop words, punctuation and blank lemmas and counts the remaining tokens per lemma; the
  Hugging Face \<^verbatim>\<open>extract_people\<close> calls the NER pipeline once per batch and keeps only the
  PER entities whose stripped word is longer than five characters; \<^verbatim>\<open>_score_long_text\<close>
  splits a text into windows and averages their signed scores; and
  \<^verbatim>\<open>build_person_sentiment_df\<close> makes a NER pass and a sentiment pass over the selected
  texts.
\<close>

theorem wrappers_filter_and_aggregate:
  "lemmatize_sentence L sentence =
      ((pad20 ''Token'' @ pad20 ''Lemma'')
         # map (\<lambda>t. pad20 (tok_text t) @ pad20 (tok_lemma t)) (doc_tokens (nlp L sentence)),
       [NlpCall sentence])
   \<and> score_sentiment L texts batch_size =
      (map blob_polarity
         (nlp_pipe L texts batch_size [''parser'', ''tagger'', ''attribute_ruler'', ''lemmatizer'', ''ner'']),
       [NlpPipe texts batch_size [''parser'', ''tagger'', ''attribute_ruler'', ''lemmatizer'', ''ner'']])
   \<and> extract_people_spacy L texts batch_size =
      (map (\<lambda>d. map span_text (filter (\<lambda>e. span_label e = ''PERSON'') (doc_ents d)))
         (nlp_pipe L texts batch_size
            [''parser'', ''tagger'', ''attribute_ruler'', ''lemmatizer'', ''spacytextblob'']),
       [NlpPipe texts batch_size [''parser'', ''tagger'', ''attribute_ruler'', ''lemmatizer'', ''spacytextblob'']])
   \<and> snd (count_tokens_pipe L articles batch_size) =
      [NlpPipe (List.map_filter (\<lambda>a. not_none_text a ''text'') articles) batch_size [''ner'', ''parser'']]
   \<and> fst (count_tokens_pipe L articles batch_size) lem =
      (let n = length (filter (\<lambda>t. \<not> is_stop t \<and> \<not> is_punct t \<and> strip (tok_lemma t) \<noteq> [] \<and> tok_lemma t = lem)
                 (concat (map doc_tokens
                    (nlp_pipe L (List.map_filter (\<lambda>a. not_none_text a ''text'') articles) batch_size
                       [''ner'', ''parser'']))))
       in if n = 0 then None else Some n)
   \<and> (0 < hf_batch_size \<longrightarrow>
        extract_people_hf L hf_texts hf_batch_size stride =
          Inr (concat (map (\<lambda>batch.
                   map (\<lambda>ents. map (\<lambda>e. strip (ent_word e))
                                   (filter (\<lambda>e. entity_group e = ''PER'' \<and> 5 < length (strip (ent_word e))) ents))
                       (ner_pipeline L batch (int (length batch)) stride))
                 (batches_of (nat hf_batch_size) (as_list hf_texts))),
               map (\<lambda>batch. NerPipeline batch (int (length batch)) stride)
                   (batches_of (nat hf_batch_size) (as_list hf_texts))))
   \<and> score_long_text L text max_len s_stride s_batch_size =
      (np_mean (map signed_score (sentiment_pipeline L (tokenizer_windows L text max_len s_stride) s_batch_size)),
       [TokenizerWindows text max_len s_stride,
        SentimentPipeline (tokenizer_windows L text max_len s_stride) s_batch_size])
   \<and> snd (build_person_sentiment_df_spacy L articles text_key max_records) =
      [NlpPipe (fst (select_texts_spacy articles text_key max_records)) 64
         [''parser'', ''tagger'', ''attribute_ruler'', ''lemmatizer'', ''spacytextblob''],
       NlpPipe (fst (select_texts_spacy articles text_key max_records)) 64
         [''parser'', ''tagger'', ''attribute_ruler'', ''lemmatizer'', ''ner'']]
   \<and> (\<exists>rows. build_person_sentiment_df_hf L articles text_key max_records =
         Inr (rows,
              map (\<lambda>batch. NerPipeline batch (int (length batch)) 128)
                  (batches_of 16 (fst (select_texts_hf articles text_key max_records)))
              @ concat (map (\<lambda>t. [TokenizerWindows t 512 128,
                                    SentimentPipeline (tokenizer_windows L t 512 128) 16])
                            (fst (select_texts_hf articles text_key max_records)))))"
proof -
  have a: "lemmatize_sentence L sentence =
      ((pad20 ''Token'' @ pad20 ''Lemma'')
         # map (\<lambda>t. pad20 (tok_text t) @ pad20 (tok_lemma t)) (doc_tokens (nlp L sentence)),
       [NlpCall sentence])"
    by (simp add: lemmatize_sentence_def Let_def)
  have b: "score_sentiment L texts batch_size =
      (map blob_polarity
         (nlp_pipe L texts batch_size [''parser'', ''tagger'', ''attribute_ruler'', ''lemmatizer'', ''ner'']),
       [NlpPipe texts batch_size [''parser'', ''tagger'', ''attribute_ruler'', ''lemmatizer'', ''ner'']])"
    by (simp add: score_sentiment_def Let_def)
  have c: "extract_people_spacy L texts batch_size =
      (map (\<lambda>d. map span_text (filter (\<lambda>e. span_label e = ''PERSON'') (doc_ents d)))
         (nlp_pipe L texts batch_size
            [''parser'', ''tagger'', ''attribute_ruler'', ''lemmatizer'', ''spacytextblob'']),
       [NlpPipe texts batch_size [''parser'', ''tagger'', ''attribute_ruler'', ''lemmatizer'', ''spacytextblob'']])"
    by (simp add: extract_people_spacy_def Let_def person_names_def)
  have d: "snd (count_tokens_pipe L articles batch_size) =
      [NlpPipe (List.map_filter (\<lambda>a. not_none_text a ''text'') articles) batch_size [''ner'', ''parser'']]"
    by (simp add: count_tokens_pipe_def Let_def)
  have e: "fst (count_tokens_pipe L articles batch_size) lem =
      (let n = length (filter (\<lambda>t. \<not> is_stop t \<and> \<not> is_punct t \<and> strip (tok_lemma t) \<noteq> [] \<and> tok_lemma t = lem)
                 (concat (map doc_tokens
                    (nlp_pipe L (List.map_filter (\<lambda>a. not_none_text a ''text'') articles) batch_size
                       [''ner'', ''parser'']))))
       in if n = 0 then None else Some n)"
    by (rule count_tokens_pipe_counter)
  have f: "0 < hf_batch_size \<longrightarrow>
        extract_people_hf L hf_texts hf_batch_size stride =
          Inr (concat (map (\<lambda>batch.
                   map (\<lambda>ents. map (\<lambda>e. strip (ent_word e))
                                   (filter (\<lambda>e. entity_group e = ''PER'' \<and> 5 < length (strip (ent_word e))) ents))
                       (ner_pipeline L batch (int (length batch)) stride))
                 (batches_of (nat hf_batch_size) (as_list hf_texts))),
               map (\<lambda>batch. NerPipeline batch (int (length batch)) stride)
                   (batches_of (nat hf_batch_size) (as_list hf_texts)))"
  proof
    assume bs: "0 < hf_batch_size"
    have pn: "per_names = (\<lambda>ents. map (\<lambda>e. strip (ent_word e))
                   (filter (\<lambda>e. entity_group e = ''PER'' \<and> 5 < length (strip (ent_word e))) ents))"
      by (rule ext) (simp add: per_names_def)
    show "extract_people_hf L hf_texts hf_batch_size stride =
          Inr (concat (map (\<lambda>batch.
                   map (\<lambda>ents. map (\<lambda>e. strip (ent_word e))
                                   (filter (\<lambda>e. entity_group e = ''PER'' \<and> 5 < length (strip (ent_word e))) ents))
                       (ner_pipeline L batch (int (length batch)) stride))
                 (batches_of (nat hf_batch_size) (as_list hf_texts))),
               map (\<lambda>batch. NerPipeline batch (int (length batch)) stride)
                   (batches_of (nat hf_batch_size) (as_list hf_texts)))"
      using extract_people_hf_batches[OF bs, of L hf_texts stride] unfolding pn .
  qed
  have g: "score_long_text L text max_len s_stride s_batch_size =
      (np_mean (map signed_score (sentiment_pipeline L (tokenizer_windows L text max_len s_stride) s_batch_size)),
       [TokenizerWindows text max_len s_stride,
        SentimentPipeline (tokenizer_windows L text max_len s_stride) s_batch_size])"
    by (simp add: score_long_text_def Let_def)
  have h: "snd (build_person_sentiment_df_spacy L articles text_key max_records) =
      [NlpPipe (fst (select_texts_spacy articles text_key max_records)) 64
         [''parser'', ''tagger'', ''attribute_ruler'', ''lemmatizer'', ''spacytextblob''],
       NlpPipe (fst (select_texts_spacy articles text_key max_records)) 64
         [''parser'', ''tagger'', ''attribute_ruler'', ''lemmatizer'', ''ner'']]"
    unfolding build_spacy_unfold by (simp add: extract_people_spacy_def score_sentiment_def Let_def)
  have i: "\<exists>rows. build_person_sentiment_df_hf L articles text_key max_records =
         Inr (rows,
              map (\<lambda>batch. NerPipeline batch (int (length batch)) 128)
                  (batches_of 16 (fst (select_texts_hf articles text_key max_records)))
              @ concat (map (\<lambda>t. [TokenizerWindows t 512 128,
                                    SentimentPipeline (tokenizer_windows L t 512 128) 16])
                            (fst (select_texts_hf articles text_key max_records))))"
  proof -
    have bs: "0 < (16::int)" by simp
    have n16: "nat 16 = 16" by simp
    from extract_people_hf_batches[OF bs, of L "StrList (fst (select_texts_hf articles text_key max_records))" 128]
    obtain people where p: "extract_people_hf L (StrList (fst (select_texts_hf articles text_key max_records))) 16 128 =
       Inr (people, map (\<lambda>batch. NerPipeline batch (int (length batch)) 128)
                  (batches_of 16 (fst (select_texts_hf articles text_key max_records))))"
      unfolding n16 by simp
    have s: "snd (extract_sentiment L (StrList (fst (select_texts_hf articles text_key max_records))) 16 512 128) =
        concat (map (\<lambda>t. [TokenizerWindows t 512 128,
                                    SentimentPipeline (tokenizer_windows L t 512 128) 16])
                            (fst (select_texts_hf articles text_key max_records)))"
      by (simp add: extract_sentiment_def score_long_text_def Let_def comp_def)
    show ?thesis unfolding build_hf_unfold[OF p] s by blast
  qed
  from a b c d e f g h i show ?thesis by blast
qed

theorem wrappers_filter_and_aggregate_witness:
  "extract_people_hf example_lib (StrList [''Sam Altman'', ''Ada'', ''Grace Hopper'']) 3 128 =
     Inr ([[''Sam Altman''], [], [''Grace Hopper'']],
          [NerPipeline [''Sam Altman'', ''Ada'', ''Grace Hopper''] 3 128])"
proof -
  have b: "batches_of (nat 3) (as_list (StrList [''Sam Altman'', ''Ada'', ''Grace Hopper''])) =
             [[''Sam Altman'', ''Ada'', ''Grace Hopper'']]"
    by (simp add: batches_of_def)
  have bs: "0 < (3::int)" by simp
  show ?thesis
    using wrappers_filter_and_aggregate[of example_lib "[]" "[]" 1 "[]" "[]" 3
            "StrList [''Sam Altman'', ''Ada'', ''Grace Hopper'']" 128 "[]" 1 1 1 "[]" None] bs
    unfolding b
    by (simp add: example_lib_def example_entities_def strip_def is_space_def)
qed

text \<open>
  Claim C4 as stated fails: from three entities the pipeline returns, two of them PER, the
  Hugging Face \<^verbatim>\<open>extract_people\<close> keeps one name; the spaCy
  \<^verbatim>\<open>build_person_sentiment_df\<close> makes two model calls on one article; and
  \<^verbatim>\<open>_score_long_text\<close> turns three window scores into one mean.
\<close>

theorem wrappers_do_more_counterexample:
  "ner_pipeline example_lib [''Sam Altman''] 1 128 =
     [[\<lparr>ent_word = ''Sam Altman'', entity_group = ''PER''\<rparr>,
       \<lparr>ent_word = ''Sam'', entity_group = ''PER''\<rparr>,
       \<lparr>ent_word = ''Google Inc'', entity_group = ''ORG''\<rparr>]]
   \<and> extract_people_hf example_lib (StrList [''Sam Altman'']) 16 128 =
       Inr ([[''Sam Altman'']], [NerPipeline [''Sam Altman''] 1 128])
   \<and> snd (build_person_sentiment_df_spacy example_lib [[''text'' \<mapsto> PyStr ''Sam Altman'']] ''text'' None) =
       [NlpPipe [''Sam Altman''] 64 [''parser'', ''tagger'', ''attribute_ruler'', ''lemmatizer'', ''spacytextblob''],
        NlpPipe [''Sam Altman''] 64 [''parser'', ''tagger'', ''attribute_ruler'', ''lemmatizer'', ''ner'']]
   \<and> map pred_score (sentiment_pipeline example_lib (tokenizer_windows example_lib ''good'' 512 128) 16) =
       [9 / 10, 1 / 2, 3 / 4]
   \<and> fst (score_long_text example_lib ''good'' 512 128 16) = Finite (2 / 15)"
  by (simp add: extract_people_hf_def py_range0_def upt_conv_Cons example_lib_def per_names_def
      example_entities_def strip_def is_space_def Let_def build_spacy_unfold extract_people_spacy_def
      score_sentiment_def select_texts_spacy_def map_filter_simps truthy_text_def dict_get_def
      score_long_text_def np_mean_def signed_score_def example_prediction_def lower_def char_lower_def upper_chars_def lower_chars_def)

section \<open>The functions leave their inputs alone\<close>

lemma keeps_refl: "n \<le> length h \<Longrightarrow> keeps n h h"
  by (simp add: keeps_def)

lemma keeps_trans: "keeps n h h1 \<Longrightarrow> keeps n h1 h2 \<Longrightarrow> keeps n h h2"
  by (simp add: keeps_def)

lemma keeps_len: "keeps n h h' \<Longrightarrow> n \<le> length h'"
  by (simp add: keeps_def)

lemma keeps_new: "n \<le> length h \<Longrightarrow> keeps n h (snd (new_obj h ob))"
  by (simp add: keeps_def new_obj_def)

lemma new_obj_addr: "fst (new_obj h ob) = length h"
  by (simp add: new_obj_def)

lemma keeps_append: "n \<le> length h \<Longrightarrow> n \<le> a \<Longrightarrow> keeps n h (list_append h a v)"
  by (auto simp: keeps_def list_append_def split: pyobj.splits)

lemma keeps_incr: "n \<le> length h \<Longrightarrow> n \<le> c \<Longrightarrow> keeps n h (counter_incr h c key)"
  by (auto simp: keeps_def counter_incr_def split: pyobj.splits)

lemma keeps_fold:
  assumes step: "\<And>x h. n \<le> length h \<Longrightarrow> keeps n h (f x h)"
    and n: "n \<le> length h"
  shows "keeps n h (fold f xs h)"
  using n
proof (induction xs arbitrary: h)
  case Nil
  then show ?case by (simp add: keeps_refl)
next
  case (Cons x xs)
  have k1: "keeps n h (f x h)" using step Cons.prems by blast
  have "keeps n (f x h) (fold f xs (f x h))" using Cons.IH keeps_len[OF k1] by blast
  with k1 show ?case by (simp add: keeps_trans)
qed

lemma keeps_new_append:
  assumes n: "n \<le> length h" and a: "n \<le> a"
  shows "keeps n h (let (r, h') = new_obj h ob in list_append h' a (f r))"
proof -
  have k: "keeps n h (snd (new_obj h ob))" using n by (rule keeps_new)
  have "keeps n (snd (new_obj h ob)) (list_append (snd (new_obj h ob)) a (f (fst (new_obj h ob))))"
    using keeps_len[OF k] a by (rule keeps_append)
  then have "keeps n h (list_append (snd (new_obj h ob)) a (f (fst (new_obj h ob))))"
    by (rule keeps_trans[OF k])
  then show ?thesis by (simp add: split_beta)
qed

lemma keeps_count_tokens_pipe:
  assumes n: "n \<le> length h"
  shows "keeps n h (snd (count_tokens_pipe_st L h articles batch_size))"
proof -
  let ?h1 = "snd (new_obj h (DictObj []))"
  let ?c = "fst (new_obj h (DictObj []))"
  let ?texts = "ListObj (map (\<lambda>article. st_get ?h1 article ''text'')
                 (filter (\<lambda>article. st_get ?h1 article ''text'' \<noteq> VNone) (list_items ?h1 articles)))"
  let ?h2 = "snd (new_obj ?h1 ?texts)"
  have c: "n \<le> ?c" using n by (simp add: new_obj_addr)
  have k1: "keeps n h ?h1" using n by (rule keeps_new)
  have k2: "keeps n ?h1 ?h2" using keeps_len[OF k1] by (rule keeps_new)
  have k12: "keeps n h ?h2" using k1 k2 by (rule keeps_trans)
  have tok: "keeps n h' (fold (\<lambda>t h. if \<not> is_stop t \<and> \<not> is_punct t \<and> 0 < length (strip (tok_lemma t))
                                          then counter_incr h ?c (tok_lemma t) else h) ts h')"
    if "n \<le> length h'" for ts h'
    using _ that by (rule keeps_fold) (simp add: keeps_incr c keeps_refl)
  have k3: "keeps n ?h2 (fold (\<lambda>d h. fold (\<lambda>t h. if \<not> is_stop t \<and> \<not> is_punct t \<and> 0 < length (strip (tok_lemma t))
                                          then counter_incr h ?c (tok_lemma t) else h)
                                   (doc_tokens d) h) docs ?h2)" for docs
    using _ keeps_len[OF k12] by (rule keeps_fold) (rule tok)
  have eq: "snd (count_tokens_pipe_st L h articles batch_size) =
      fold (\<lambda>d h. fold (\<lambda>t h. if \<not> is_stop t \<and> \<not> is_punct t \<and> 0 < length (strip (tok_lemma t))
                                          then counter_incr h ?c (tok_lemma t) else h)
                                   (doc_tokens d) h)
           (nlp_pipe L (map str_of (list_items ?h2 (fst (new_obj ?h1 ?texts)))) batch_size [''ner'', ''parser''])
           ?h2"
    by (simp add: count_tokens_pipe_st_def split_beta Let_def)
  show ?thesis unfolding eq by (rule keeps_trans[OF k12 k3])
qed

lemma keeps_extract_people_spacy:
  assumes n: "n \<le> length h"
  shows "keeps n h (snd (extract_people_spacy_st L h texts batch_size))"
proof -
  let ?h1 = "snd (new_obj h (ListObj []))"
  let ?p = "fst (new_obj h (ListObj []))"
  have p: "n \<le> ?p" using n by (simp add: new_obj_addr)
  have k1: "keeps n h ?h1" using n by (rule keeps_new)
  have k2: "keeps n ?h1 (fold (\<lambda>d h. let (names, h') = new_obj h (ListObj (map VStr (person_names d)))
                            in list_append h' ?p (VRef names)) docs ?h1)" for docs
    using _ keeps_len[OF k1] by (rule keeps_fold) (rule keeps_new_append[OF _ p])
  have eq: "snd (extract_people_spacy_st L h texts batch_size) =
      fold (\<lambda>d h. let (names, h') = new_obj h (ListObj (map VStr (person_names d)))
                            in list_append h' ?p (VRef names))
           (nlp_pipe L (map str_of (list_items ?h1 texts)) batch_size
                   [''parser'', ''tagger'', ''attribute_ruler'', ''lemmatizer'', ''spacytextblob''])
           ?h1"
    by (simp add: extract_people_spacy_st_def split_beta Let_def)
  show ?thesis unfolding eq by (rule keeps_trans[OF k1 k2])
qed

lemma keeps_score_sentiment:
  assumes n: "n \<le> length h"
  shows "keeps n h (snd (score_sentiment_st L h texts batch_size))"
proof -
  let ?h1 = "snd (new_obj h (ListObj []))"
  let ?p = "fst (new_obj h (ListObj []))"
  have p: "n \<le> ?p" using n by (simp add: new_obj_addr)
  have k1: "keeps n h ?h1" using n by (rule keeps_new)
  have k2: "keeps n ?h1 (fold (\<lambda>d h. list_append h ?p (VFloat (Finite (blob_polarity d)))) docs ?h1)" for docs
    using _ keeps_len[OF k1] by (rule keeps_fold) (rule keeps_append[OF _ p])
  have eq: "snd (score_sentiment_st L h texts batch_size) =
      fold (\<lambda>d h. list_append h ?p (VFloat (Finite (blob_polarity d))))
           (nlp_pipe L (map str_of (list_items ?h1 texts)) batch_size
                   [''parser'', ''tagger'', ''attribute_ruler'', ''lemmatizer'', ''ner''])
           ?h1"
    by (simp add: score_sentiment_st_def split_beta Let_def)
  show ?thesis unfolding eq by (rule keeps_trans[OF k1 k2])
qed

lemma keeps_explode:
  assumes n: "n \<le> length h" and r: "n \<le> records"
  shows "keeps n h (explode_st col records ids people scores h)"
proof -
  have inner: "keeps n h' (fold (\<lambda>name h. let (r, h') = new_obj h
                                   (DictObj [(''article_id'', art_id), (''person'', name), (col, pol)])
                             in list_append h' records (VRef r)) names h')"
    if "n \<le> length h'" for art_id pol names h'
    using _ that by (rule keeps_fold) (rule keeps_new_append[OF _ r])
  have step: "keeps n h' ((\<lambda>(art_id, names, pol) h.
             fold (\<lambda>name h. let (r, h') = new_obj h
                                   (DictObj [(''article_id'', art_id), (''person'', name), (col, pol)])
                             in list_append h' records (VRef r))
                  (ref_items h names) h) z h')"
    if len: "n \<le> length h'" for z h'
  proof -
    obtain art_id names pol where z: "z = (art_id, names, pol)" by (cases z) auto
    show ?thesis unfolding z prod.case using len by (rule inner)
  qed
  have "keeps n h (fold (\<lambda>(art_id, names, pol) h.
             fold (\<lambda>name h. let (r, h') = new_obj h
                                   (DictObj [(''article_id'', art_id), (''person'', name), (col, pol)])
                             in list_append h' records (VRef r))
                  (ref_items h names) h) zs h)" for zs
    using _ n by (rule keeps_fold) (rule step)
  then show ?thesis unfolding explode_st_def .
qed

lemma keeps_as_list: "n \<le> length h \<Longrightarrow> keeps n h (snd (as_list_st h texts))"
  by (cases texts) (simp_all add: as_list_st_def keeps_new keeps_refl)

lemma keeps_ner_step:
  assumes n: "n \<le> length h" and p: "n \<le> persons_per_doc"
  shows "keeps n h (ner_step L texts batch_size stride persons_per_doc start h)"
proof -
  let ?b = "ListObj (take (nat batch_size) (drop start (list_items h texts)))"
  let ?h1 = "snd (new_obj h ?b)"
  have k1: "keeps n h ?h1" using n by (rule keeps_new)
  have k2: "keeps n ?h1 (fold (\<lambda>d h. let (names, h') = new_obj h (ListObj (map VStr (per_names d)))
                      in list_append h' persons_per_doc (VRef names)) ents ?h1)" for ents
    using _ keeps_len[OF k1] by (rule keeps_fold) (rule keeps_new_append[OF _ p])
  have eq: "ner_step L texts batch_size stride persons_per_doc start h =
      fold (\<lambda>d h. let (names, h') = new_obj h (ListObj (map VStr (per_names d)))
                      in list_append h' persons_per_doc (VRef names))
           (ner_pipeline L (map str_of (list_items ?h1 (fst (new_obj h ?b))))
                             (int (length (list_items ?h1 (fst (new_obj h ?b))))) stride)
           ?h1"
    by (simp add: ner_step_def split_beta Let_def)
  show ?thesis unfolding eq by (rule keeps_trans[OF k1 k2])
qed

lemma keeps_extract_people_hf:
  assumes n: "n \<le> length h"
  shows "keeps n h (snd (extract_people_hf_st L h texts batch_size stride))"
proof -
  let ?h1 = "snd (as_list_st h texts)"
  let ?t = "fst (as_list_st h texts)"
  let ?h2 = "snd (new_obj ?h1 (ListObj []))"
  let ?p = "fst (new_obj ?h1 (ListObj []))"
  have k1: "keeps n h ?h1" using n by (rule keeps_as_list)
  have k2: "keeps n ?h1 ?h2" using keeps_len[OF k1] by (rule keeps_new)
  have k12: "keeps n h ?h2" using k1 k2 by (rule keeps_trans)
  have p: "n \<le> ?p" using keeps_len[OF k1] by (simp add: new_obj_addr)
  have k3: "keeps n ?h2 (fold (ner_step L ?t batch_size stride ?p) starts ?h2)" for starts
    using _ keeps_len[OF k12] by (rule keeps_fold) (rule keeps_ner_step[OF _ p])
  show ?thesis
  proof (cases "py_range0 (length (list_items ?h2 ?t)) batch_size")
    case (Inl e)
    then have "snd (extract_people_hf_st L h texts batch_size stride) = ?h2"
      by (simp add: extract_people_hf_st_def split_beta Let_def)
    then show ?thesis using k12 by simp
  next
    case (Inr starts)
    then have "snd (extract_people_hf_st L h texts batch_size stride) =
        fold (ner_step L ?t batch_size stride ?p) starts ?h2"
      by (simp add: extract_people_hf_st_def split_beta Let_def)
    then show ?thesis using keeps_trans[OF k12 k3[of starts]] by simp
  qed
qed

lemma keeps_score_long_text:
  "n \<le> length h \<Longrightarrow> keeps n h (snd (score_long_text_st L h text max_len stride batch_size))"
  by (simp add: score_long_text_st_def split_beta Let_def keeps_new)

lemma keeps_extract_sentiment:
  assumes n: "n \<le> length h"
  shows "keeps n h (snd (extract_sentiment_st L h texts batch_size max_len stride))"
proof -
  let ?h1 = "snd (as_list_st h texts)"
  let ?t = "fst (as_list_st h texts)"
  let ?h2 = "snd (new_obj ?h1 (ListObj []))"
  let ?s = "fst (new_obj ?h1 (ListObj []))"
  have k1: "keeps n h ?h1" using n by (rule keeps_as_list)
  have k2: "keeps n ?h1 ?h2" using keeps_len[OF k1] by (rule keeps_new)
  have k12: "keeps n h ?h2" using k1 k2 by (rule keeps_trans)
  have s: "n \<le> ?s" using keeps_len[OF k1] by (simp add: new_obj_addr)
  have step: "keeps n h' (let (avg, h'') = score_long_text_st L h' (str_of t) max_len stride batch_size
                       in list_append h'' ?s (VFloat avg))"
    if len: "n \<le> length h'" for t h'
  proof -
    have a: "keeps n h' (snd (score_long_text_st L h' (str_of t) max_len stride batch_size))"
      using len by (rule keeps_score_long_text)
    have "keeps n (snd (score_long_text_st L h' (str_of t) max_len stride batch_size))
            (list_append (snd (score_long_text_st L h' (str_of t) max_len stride batch_size)) ?s
               (VFloat (fst (score_long_text_st L h' (str_of t) max_len stride batch_size))))"
      using keeps_len[OF a] s by (rule keeps_append)
    then have "keeps n h' (list_append (snd (score_long_text_st L h' (str_of t) max_len stride batch_size)) ?s
               (VFloat (fst (score_long_text_st L h' (str_of t) max_len stride batch_size))))"
      by (rule keeps_trans[OF a])
    then show ?thesis by (simp add: split_beta)
  qed
  have k3: "keeps n ?h2 (fold (\<lambda>t h. let (avg, h') = score_long_text_st L h (str_of t) max_len stride batch_size
                       in list_append h' ?s (VFloat avg)) ts ?h2)" for ts
    using _ keeps_len[OF k12] by (rule keeps_fold) (rule step)
  have eq: "snd (extract_sentiment_st L h texts batch_size max_len stride) =
      fold (\<lambda>t h. let (avg, h') = score_long_text_st L h (str_of t) max_len stride batch_size
                       in list_append h' ?s (VFloat avg)) (list_items ?h2 ?t) ?h2"
    by (simp add: extract_sentiment_st_def split_beta Let_def)
  show ?thesis unfolding eq by (rule keeps_trans[OF k12 k3])
qed

lemma keeps_collect_loop:
  assumes t: "n \<le> texts" and a: "n \<le> art_ids"
  shows "n \<le> length h \<Longrightarrow> keeps n h (collect_loop_st text_key max_records texts art_ids es h)"
proof (induction es arbitrary: h)
  case Nil
  then show ?case by (simp add: keeps_refl)
next
  case (Cons e es)
  obtain i art where e: "e = (i, art)" by (cases e)
  show ?case
  proof (cases "pv_truthy h (st_get h art text_key)")
    case False
    then show ?thesis using Cons e by simp
  next
    case True
    let ?h1 = "list_append h texts (st_get h art text_key)"
    let ?h2 = "list_append ?h1 art_ids (VInt (int i))"
    have k1: "keeps n h ?h1" using Cons.prems t by (rule keeps_append)
    have k2: "keeps n ?h1 ?h2" using keeps_len[OF k1] a by (rule keeps_append)
    have k12: "keeps n h ?h2" using k1 k2 by (rule keeps_trans)
    show ?thesis
    proof (cases "break_now max_records (length (list_items ?h2 texts))")
      case b: True
      then have "collect_loop_st text_key max_records texts art_ids (e # es) h = ?h2"
        using True e by (simp add: Let_def)
      then show ?thesis using k12 by simp
    next
      case b: False
      then have eq: "collect_loop_st text_key max_records texts art_ids (e # es) h =
          collect_loop_st text_key max_records texts art_ids es ?h2"
        using True e by (simp add: Let_def)
      have "keeps n ?h2 (collect_loop_st text_key max_records texts art_ids es ?h2)"
        using keeps_len[OF k12] by (rule Cons.IH)
      then show ?thesis unfolding eq by (rule keeps_trans[OF k12])
    qed
  qed
qed

lemma keeps_build_spacy:
  assumes n: "n \<le> length h"
  shows "keeps n h (snd (build_person_sentiment_df_spacy_st L h articles text_key max_records))"
proof -
  let ?o1 = "ListObj (map (\<lambda>a. st_get h a text_key)
                           (filter (\<lambda>a. pv_truthy h (st_get h a text_key)) (list_items h articles)))"
  let ?h1 = "snd (new_obj h ?o1)"
  let ?t = "fst (new_obj h ?o1)"
  let ?o2 = "ListObj (map (\<lambda>(i, a). VInt (int i))
                           (filter (\<lambda>(i, a). pv_truthy ?h1 (st_get ?h1 a text_key))
                                   (enumerate 0 (list_items ?h1 articles))))"
  let ?h2 = "snd (new_obj ?h1 ?o2)"
  let ?i = "fst (new_obj ?h1 ?o2)"
  have k1: "keeps n h ?h1" using n by (rule keeps_new)
  have k2: "keeps n ?h1 ?h2" using keeps_len[OF k1] by (rule keeps_new)
  have k12: "keeps n h ?h2" using k1 k2 by (rule keeps_trans)
  define sl where "sl = (case max_records of
                None \<Rightarrow> (?t, ?i, ?h2)
              | Some m \<Rightarrow>
                  (let (texts', h3) = new_obj ?h2 (ListObj (py_slice_to (list_items ?h2 ?t) m));
                       (article_ids', h4) = new_obj h3 (ListObj (py_slice_to (list_items h3 ?i) m))
                   in (texts', article_ids', h4)))"
  let ?h4 = "snd (snd sl)"
  have k4: "keeps n ?h2 ?h4"
  proof (cases max_records)
    case None
    then show ?thesis using keeps_len[OF k12] by (simp add: sl_def keeps_refl)
  next
    case (Some m)
    let ?h3 = "snd (new_obj ?h2 (ListObj (py_slice_to (list_items ?h2 ?t) m)))"
    have a: "keeps n ?h2 ?h3" using keeps_len[OF k12] by (rule keeps_new)
    have b: "keeps n ?h3 (snd (new_obj ?h3 (ListObj (py_slice_to (list_items ?h3 ?i) m))))"
      using keeps_len[OF a] by (rule keeps_new)
    have "?h4 = snd (new_obj ?h3 (ListObj (py_slice_to (list_items ?h3 ?i) m)))"
      using Some by (simp add: sl_def split_beta Let_def)
    then show ?thesis using keeps_trans[OF a b] by simp
  qed
  have k14: "keeps n h ?h4" using k12 k4 by (rule keeps_trans)
  let ?h5 = "snd (extract_people_spacy_st L ?h4 (fst sl) 64)"
  have k5: "keeps n ?h4 ?h5" using keeps_len[OF k14] by (rule keeps_extract_people_spacy)
  have k15: "keeps n h ?h5" using k14 k5 by (rule keeps_trans)
  let ?h6 = "snd (score_sentiment_st L ?h5 (fst sl) 64)"
  have k6: "keeps n ?h5 ?h6" using keeps_len[OF k15] by (rule keeps_score_sentiment)
  have k16: "keeps n h ?h6" using k15 k6 by (rule keeps_trans)
  let ?h7 = "snd (new_obj ?h6 (ListObj []))"
  let ?r = "fst (new_obj ?h6 (ListObj []))"
  have k7: "keeps n ?h6 ?h7" using keeps_len[OF k16] by (rule keeps_new)
  have k17: "keeps n h ?h7" using k16 k7 by (rule keeps_trans)
  have r: "n \<le> ?r" using keeps_len[OF k16] by (simp add: new_obj_addr)
  have k8: "keeps n ?h7 (explode_st ''polarity'' ?r (fst (snd sl))
                (fst (extract_people_spacy_st L ?h4 (fst sl) 64))
                (fst (score_sentiment_st L ?h5 (fst sl) 64)) ?h7)"
    using keeps_len[OF k17] r by (rule keeps_explode)
  have eq: "snd (build_person_sentiment_df_spacy_st L h articles text_key max_records) =
      explode_st ''polarity'' ?r (fst (snd sl))
                (fst (extract_people_spacy_st L ?h4 (fst sl) 64))
                (fst (score_sentiment_st L ?h5 (fst sl) 64)) ?h7"
    by (cases max_records)
       (simp_all add: build_person_sentiment_df_spacy_st_def sl_def split_beta Let_def)
  show ?thesis unfolding eq by (rule keeps_trans[OF k17 k8])
qed

lemma keeps_build_hf:
  assumes n: "n \<le> length h"
  shows "keeps n h (snd (build_person_sentiment_df_hf_st L h articles text_key max_records))"
proof -
  let ?h1 = "snd (new_obj h (ListObj []))"
  let ?t = "fst (new_obj h (ListObj []))"
  let ?h2 = "snd (new_obj ?h1 (ListObj []))"
  let ?i = "fst (new_obj ?h1 (ListObj []))"
  have k1: "keeps n h ?h1" using n by (rule keeps_new)
  have k2: "keeps n ?h1 ?h2" using keeps_len[OF k1] by (rule keeps_new)
  have k12: "keeps n h ?h2" using k1 k2 by (rule keeps_trans)
  have t: "n \<le> ?t" using n by (simp add: new_obj_addr)
  have i: "n \<le> ?i" using keeps_len[OF k1] by (simp add: new_obj_addr)
  let ?h3 = "collect_loop_st text_key max_records ?t ?i (enumerate 0 (list_items ?h2 articles)) ?h2"
  have k3: "keeps n ?h2 ?h3" using t i keeps_len[OF k12] by (rule keeps_collect_loop)
  have k13: "keeps n h ?h3" using k12 k3 by (rule keeps_trans)
  let ?h4 = "snd (extract_people_hf_st L ?h3 (ListIn ?t) 16 128)"
  have k4: "keeps n ?h3 ?h4" using keeps_len[OF k13] by (rule keeps_extract_people_hf)
  have k14: "keeps n h ?h4" using k13 k4 by (rule keeps_trans)
  show ?thesis
  proof (cases "fst (extract_people_hf_st L ?h3 (ListIn ?t) 16 128)")
    case (Inl e)
    then have "snd (build_person_sentiment_df_hf_st L h articles text_key max_records) = ?h4"
      by (simp add: build_person_sentiment_df_hf_st_def split_beta Let_def)
    then show ?thesis using k14 by simp
  next
    case (Inr people)
    let ?h5 = "snd (extract_sentiment_st L ?h4 (ListIn ?t) 16 512 128)"
    let ?h6 = "snd (new_obj ?h5 (ListObj []))"
    let ?r = "fst (new_obj ?h5 (ListObj []))"
    have k5: "keeps n ?h4 ?h5" using keeps_len[OF k14] by (rule keeps_extract_sentiment)
    have k15: "keeps n h ?h5" using k14 k5 by (rule keeps_trans)
    have k6: "keeps n ?h5 ?h6" using keeps_len[OF k15] by (rule keeps_new)
    have k16: "keeps n h ?h6" using k15 k6 by (rule keeps_trans)
    have r: "n \<le> ?r" using keeps_len[OF k15] by (simp add: new_obj_addr)
    have k7: "keeps n ?h6 (explode_st ''score'' ?r ?i people
                 (fst (extract_sentiment_st L ?h4 (ListIn ?t) 16 512 128)) ?h6)"
      using keeps_len[OF k16] r by (rule keeps_explode)
    have eq: "snd (build_person_sentiment_df_hf_st L h articles text_key max_records) =
        explode_st ''score'' ?r ?i people
                 (fst (extract_sentiment_st L ?h4 (ListIn ?t) 16 512 128)) ?h6"
      using Inr by (simp add: build_person_sentiment_df_hf_st_def split_beta Let_def)
    show ?thesis unfolding eq by (rule keeps_trans[OF k16 k7])
  qed
qed

lemma keeps_prefix: "keeps (length h) h h' \<Longrightarrow> take (length h) h' = h"
  by (simp add: keeps_def)

text \<open>
  Claim C7.  On the explicit store, none of \<^verbatim>\<open>count_tokens_pipe\<close>, the two
  \<^verbatim>\<open>extract_people\<close>, \<^verbatim>\<open>score_sentiment\<close>, \<^verbatim>\<open>extract_sentiment\<close> and the two
  \<^verbatim>\<open>build_person_sentiment_df\<close> changes an object that existed before the call: whatever
  the library returns, the store after the call begins with the store before it.  So the
  list of articles passed in, every article dict and every list of texts are the same
  after the call; what the functions write goes to the objects they created themselves.
\<close>

theorem inputs_unchanged:
  "take (length h) (snd (count_tokens_pipe_st L h articles batch_size)) = h
   \<and> take (length h) (snd (extract_people_spacy_st L h texts batch_size)) = h
   \<and> take (length h) (snd (score_sentiment_st L h texts batch_size)) = h
   \<and> take (length h) (snd (extract_people_hf_st L h hf_texts batch_size stride)) = h
   \<and> take (length h) (snd (extract_sentiment_st L h hf_texts batch_size max_len stride)) = h
   \<and> take (length h) (snd (build_person_sentiment_df_spacy_st L h articles text_key max_records)) = h
   \<and> take (length h) (snd (build_person_sentiment_df_hf_st L h articles text_key max_records)) = h"
  by (intro conjI keeps_prefix keeps_count_tokens_pipe keeps_extract_people_spacy keeps_score_sentiment
        keeps_extract_people_hf keeps_extract_sentiment keeps_build_spacy keeps_build_hf order_refl)

lemma example_store_length: "length example_store = 8"
  by (simp add: example_store_def)

lemma example_extract_people_run:
  "extract_people_spacy_st example_lib example_store 7 64 =
     (8, example_store @
           [ListObj [VRef 9, VRef 10, VRef 11],
            ListObj [VStr ''Sam Altman''], ListObj [VStr ''Ada''], ListObj [VStr ''Grace Hopper'']])"
  by (simp add: extract_people_spacy_st_def new_obj_def list_items_def list_append_def
      split_beta Let_def example_store_def example_lib_def person_names_def example_doc_def)

theorem inputs_unchanged_witness:
  "take 8 (snd (extract_people_spacy_st example_lib example_store 7 64)) = example_store
   \<and> extract_people_spacy_st example_lib example_store 7 64 =
       (8, example_store @
             [ListObj [VRef 9, VRef 10, VRef 11],
              ListObj [VStr ''Sam Altman''], ListObj [VStr ''Ada''], ListObj [VStr ''Grace Hopper'']])"
proof -
  have "take 8 (snd (extract_people_spacy_st example_lib example_store 7 64)) = example_store"
    using inputs_unchanged[of example_store example_lib 6 64 7 "ListIn 7" 128 512 "''text''" None]
    unfolding example_store_length by blast
  then show ?thesis using example_extract_people_run by blast
qed

section \<open>Properties of the apportioning step\<close>

lemma filter_key_unique:
  "distinct (map fst tbl) \<Longrightarrow> (n, a) \<in> set tbl \<Longrightarrow> filter (\<lambda>(n', a'). n' = n) tbl = [(n, a)]"
proof (induction tbl)
  case Nil
  then show ?case by simp
next
  case (Cons p tbl)
  obtain n' a' where p: "p = (n', a')" by (cases p)
  show ?case
  proof (cases "n' = n")
    case True
    with Cons.prems p have "n \<notin> fst ` set tbl" by simp
    then have "filter (\<lambda>(n', a'). n' = n) tbl = []"
      by (force simp: filter_empty_conv)
    moreover have "a' = a" using Cons.prems p True by force
    ultimately show ?thesis using p True by simp
  next
    case False
    then show ?thesis using Cons p by auto
  qed
qed

lemma merge_left_unique:
  assumes d: "distinct (map ward_number (gdf_rows g))"
    and w: "w \<in> set (gdf_rows g)" and n: "ov_ward_number r = ward_number w"
  shows "merge_left [r] (ward_area g) = [(r, Finite (ward_geom_area w))]"
proof -
  have "distinct (map fst (ward_area g))" using d by (simp add: ward_area_def comp_def)
  moreover have "(ov_ward_number r, ward_geom_area w) \<in> set (ward_area g)"
    using w n by (auto simp: ward_area_def)
  ultimately have "filter (\<lambda>(n', a'). n' = ov_ward_number r) (ward_area g) = [(ov_ward_number r, ward_geom_area w)]"
    by (rule filter_key_unique)
  then show ?thesis by (simp add: merge_left_def)
qed

lemma merge_left_append: "merge_left (xs @ ys) tbl = merge_left xs tbl @ merge_left ys tbl"
  by (simp add: merge_left_def)

lemma merge_left_Cons: "merge_left (x # xs) tbl = merge_left [x] tbl @ merge_left xs tbl"
  by (simp add: merge_left_def)

lemma merge_left_all:
  assumes d: "distinct (map ward_number (gdf_rows g))"
    and wf: "\<forall>r\<in>set rows. \<exists>w\<in>set (gdf_rows g). ov_ward_number r = ward_number w"
  shows "\<exists>ws. length ws = length rows \<and> (\<forall>i<length rows. ws ! i \<in> set (gdf_rows g) \<and> ward_number (ws ! i) = ov_ward_number (rows ! i)) \<and>
     merge_left rows (ward_area g) = map (\<lambda>(r, w). (r, Finite (ward_geom_area w))) (zip rows ws)"
  using wf
proof (induction rows)
  case Nil
  then show ?case by (simp add: merge_left_def)
next
  case (Cons r rows)
  then obtain ws where ws: "length ws = length rows"
     "\<forall>i<length rows. ws ! i \<in> set (gdf_rows g) \<and> ward_number (ws ! i) = ov_ward_number (rows ! i)"
     "merge_left rows (ward_area g) = map (\<lambda>(r, w). (r, Finite (ward_geom_area w))) (zip rows ws)"
    by auto
  from Cons.prems obtain w where w: "w \<in> set (gdf_rows g)" "ov_ward_number r = ward_number w" by auto
  have m: "merge_left [r] (ward_area g) = [(r, Finite (ward_geom_area w))]"
    using merge_left_unique[OF d w] .
  have "\<forall>i<length (r # rows). (w # ws) ! i \<in> set (gdf_rows g) \<and> ward_number ((w # ws) ! i) = ov_ward_number ((r # rows) ! i)"
    using ws(2) w by (auto simp: nth_Cons split: nat.splits)
  moreover have "merge_left (r # rows) (ward_area g) = map (\<lambda>(r, w). (r, Finite (ward_geom_area w))) (zip (r # rows) (w # ws))"
    using merge_left_Cons[of r rows "ward_area g"] m ws(3) by simp
  moreover have "length (w # ws) = length (r # rows)" using ws(1) by simp
  ultimately show ?case by blast
qed

lemmas example_defs = example_gdf_def example_overlay_def example_ward_1_def example_ward_2_def

lemma ex_cols: "numeric_cols example_gdf = [''311_Noise'', ''STR_Apartment'']"
  by (simp add: numeric_cols_def example_gdf_def starts_with_def)

text \<open>
  Claim C1.  Let the ward numbers of \<^verbatim>\<open>gdf_combined\<close> be distinct and let every overlay
  row carry the number and the counts of a ward row.  Then the apportioned frame has one
  row per overlay row, with that row's FSA code, and for every column whose name starts
  with \<^verbatim>\<open>311_\<close> or \<^verbatim>\<open>STR_\<close> its value is the ward's count times the area fraction, the
  area of the intersection polygon divided by the area of the ward's polygon (a finite
  number whenever the ward's area is not zero).
\<close>

theorem apportioned_value:
  assumes d: "distinct (map ward_number (gdf_rows g))"
    and wf: "\<forall>r\<in>set ward_fsa. \<exists>w\<in>set (gdf_rows g). ov_ward_number r = ward_number w \<and> ov_cells r = ward_cells w"
  shows "length (apportion g ward_fsa) = length ward_fsa \<and>
    (\<forall>i<length ward_fsa. \<exists>w\<in>set (gdf_rows g).
        ward_number w = ov_ward_number (ward_fsa ! i) \<and>
        fst (apportion g ward_fsa ! i) = ov_cfsauid (ward_fsa ! i) \<and>
        length (snd (apportion g ward_fsa ! i)) = length (numeric_cols g) \<and>
        (\<forall>j<length (numeric_cols g).
           snd (apportion g ward_fsa ! i) ! j =
             np_mul (ward_cells w (numeric_cols g ! j))
                    (np_div (area_overlap (ward_fsa ! i)) (Finite (ward_geom_area w))) \<and>
           (ward_geom_area w \<noteq> 0 \<longrightarrow>
              snd (apportion g ward_fsa ! i) ! j =
                Finite (ward_cells w (numeric_cols g ! j) * (area_overlap (ward_fsa ! i) / ward_geom_area w)))))"
proof -
  from wf have wf': "\<forall>r\<in>set ward_fsa. \<exists>w\<in>set (gdf_rows g). ov_ward_number r = ward_number w" by blast
  from merge_left_all[OF d wf'] obtain ws where ws: "length ws = length ward_fsa"
     "\<forall>i<length ward_fsa. ws ! i \<in> set (gdf_rows g) \<and> ward_number (ws ! i) = ov_ward_number (ward_fsa ! i)"
     "merge_left ward_fsa (ward_area g) = map (\<lambda>(r, w). (r, Finite (ward_geom_area w))) (zip ward_fsa ws)"
    by blast
  have len: "length (apportion g ward_fsa) = length ward_fsa"
    using ws by (simp add: apportion_def)
  have "\<exists>w\<in>set (gdf_rows g).
        ward_number w = ov_ward_number (ward_fsa ! i) \<and>
        fst (apportion g ward_fsa ! i) = ov_cfsauid (ward_fsa ! i) \<and>
        length (snd (apportion g ward_fsa ! i)) = length (numeric_cols g) \<and>
        (\<forall>j<length (numeric_cols g).
           snd (apportion g ward_fsa ! i) ! j =
             np_mul (ward_cells w (numeric_cols g ! j))
                    (np_div (area_overlap (ward_fsa ! i)) (Finite (ward_geom_area w))) \<and>
           (ward_geom_area w \<noteq> 0 \<longrightarrow>
              snd (apportion g ward_fsa ! i) ! j =
                Finite (ward_cells w (numeric_cols g ! j) * (area_overlap (ward_fsa ! i) / ward_geom_area w))))"
    if i: "i < length ward_fsa" for i
  proof -
    let ?r = "ward_fsa ! i" and ?w = "ws ! i"
    have win: "?w \<in> set (gdf_rows g)" and wn: "ward_number ?w = ov_ward_number ?r" using ws(2) i by auto
    have "?r \<in> set ward_fsa" using i by simp
    then obtain w' where w': "w' \<in> set (gdf_rows g)" "ov_ward_number ?r = ward_number w'" "ov_cells ?r = ward_cells w'"
      using wf by blast
    have "w' = ?w" using d win w'(1) w'(2) wn by (metis distinct_map inj_onD)
    then have cells: "ov_cells ?r = ward_cells ?w" using w'(3) by simp
    have row: "apportion g ward_fsa ! i = apportioned_row (numeric_cols g) (?r, Finite (ward_geom_area ?w))"
      using ws i by (simp add: apportion_def)
    show ?thesis
      using win wn cells by (intro bexI[of _ ?w]) (auto simp: row apportioned_row_def area_frac_def)
  qed
  with len show ?thesis by blast
qed

theorem apportioned_value_witness:
  "length (apportion example_gdf example_overlay) = 3 \<and>
   apportion example_gdf example_overlay ! 1 = (''M4C'', [Finite 6, Finite (3 / 2)])"
proof -
  have d: "distinct (map ward_number (gdf_rows example_gdf))"
    by (simp add: example_defs)
  have wf: "\<forall>r\<in>set example_overlay. \<exists>w\<in>set (gdf_rows example_gdf).
              ov_ward_number r = ward_number w \<and> ov_cells r = ward_cells w"
    by (simp add: example_defs)
  have len: "length (apportion example_gdf example_overlay) = 3"
    using apportioned_value[OF d wf] by (simp add: example_overlay_def)
  have "1 < length example_overlay" by (simp add: example_overlay_def)
  with apportioned_value[OF d wf] obtain w where w: "w \<in> set (gdf_rows example_gdf)"
    "ward_number w = ov_ward_number (example_overlay ! 1)"
    "fst (apportion example_gdf example_overlay ! 1) = ov_cfsauid (example_overlay ! 1)"
    "length (snd (apportion example_gdf example_overlay ! 1)) = length (numeric_cols example_gdf)"
    "\<forall>j<length (numeric_cols example_gdf).
       snd (apportion example_gdf example_overlay ! 1) ! j =
         np_mul (ward_cells w (numeric_cols example_gdf ! j))
           (np_div (area_overlap (example_overlay ! 1)) (Finite (ward_geom_area w)))"
    by blast
  have weq: "w = example_ward_1" using w(1,2) by (auto simp: example_defs)
  have j0: "0 < length (numeric_cols example_gdf)" and j1: "1 < length (numeric_cols example_gdf)"
    by (simp_all add: ex_cols)
  from w(5) j0 have "snd (apportion example_gdf example_overlay ! 1) ! 0 =
         np_mul (ward_cells w (numeric_cols example_gdf ! 0))
           (np_div (area_overlap (example_overlay ! 1)) (Finite (ward_geom_area w)))"
    by blast
  then have v0: "snd (apportion example_gdf example_overlay ! 1) ! 0 = Finite 6"
    unfolding weq ex_cols by (simp add: example_ward_1_def example_overlay_def example_cells_1_def)
  from w(5) j1 have "snd (apportion example_gdf example_overlay ! 1) ! 1 =
         np_mul (ward_cells w (numeric_cols example_gdf ! 1))
           (np_div (area_overlap (example_overlay ! 1)) (Finite (ward_geom_area w)))"
    by blast
  then have v1: "snd (apportion example_gdf example_overlay ! 1) ! 1 = Finite (3 / 2)"
    unfolding weq ex_cols by (simp add: example_ward_1_def example_overlay_def example_cells_1_def)
  have "length (snd (apportion example_gdf example_overlay ! 1)) = 2" using w(4) by (simp add: ex_cols)
  then have "snd (apportion example_gdf example_overlay ! 1) = [Finite 6, Finite (3 / 2)]"
    using v0 v1 by (auto simp: length_Suc_conv numeral_2_eq_2)
  moreover have "fst (apportion example_gdf example_overlay ! 1) = ''M4C''"
    using w(3) by (simp add: example_overlay_def)
  ultimately have "apportion example_gdf example_overlay ! 1 = (''M4C'', [Finite 6, Finite (3 / 2)])"
    by (simp add: prod_eq_iff)
  with len show ?thesis by simp
qed

end
